theory Spec2Isabelle
  imports Main "HOL-Library.Sublist"
begin

section \<open>JavaScript strings\<close>

text \<open>
  The scripts work on JavaScript strings. They are modelled as \<^typ>\<open>string\<close>, restricted to
  ASCII: \<open>toLowerCase\<close> maps \<open>A\<close>..\<open>Z\<close> to \<open>a\<close>..\<open>z\<close> and leaves every other character
  alone, and the regular-expression class \<open>\s\<close> is tab, line feed, vertical tab, form feed,
  carriage return and space. \<open>null\<close> and \<open>undefined\<close> are \<^term>\<open>None\<close>.
\<close>

definition toLowerCase_char :: "char \<Rightarrow> char" where
  "toLowerCase_char c =
     (case map_of (zip ''ABCDEFGHIJKLMNOPQRSTUVWXYZ'' ''abcdefghijklmnopqrstuvwxyz'') c of
        Some l \<Rightarrow> l
      | None \<Rightarrow> c)"

definition toLowerCase :: "string \<Rightarrow> string" where
  "toLowerCase s = map toLowerCase_char s"

definition is_space :: "char \<Rightarrow> bool" where
  "is_space c = (c \<in> set [CHR 0x09, CHR 0x0A, CHR 0x0B, CHR 0x0C, CHR 0x0D, CHR '' ''])"

text \<open>\<open>s.trim()\<close>.\<close>

definition trim :: "string \<Rightarrow> string" where
  "trim s = rev (dropWhile is_space (rev (dropWhile is_space s)))"

text \<open>\<open>s.startsWith(t)\<close> and \<open>s.includes(t)\<close>.\<close>

definition startsWith :: "string \<Rightarrow> string \<Rightarrow> bool" where
  "startsWith s t = prefix t s"

fun str_includes :: "string \<Rightarrow> string \<Rightarrow> bool" where
  "str_includes [] t = (t = [])"
| "str_includes (x # xs) t = (startsWith (x # xs) t \<or> str_includes xs t)"

text \<open>\<open>s.split(c)\<close> for a one-character separator: a separator ends a piece, also an empty one.\<close>

fun split_char :: "char \<Rightarrow> string \<Rightarrow> string list" where
  "split_char c [] = [[]]"
| "split_char c (x # xs) =
     (if x = c then [] # split_char c xs
      else (case split_char c xs of
              p # ps \<Rightarrow> (x # p) # ps
            | [] \<Rightarrow> [[x]]))"

text \<open>\<open>s.split(/\s+/)\<close>: a whole run of whitespace is one separator.\<close>

function split_ws :: "string \<Rightarrow> string list" where
  "split_ws [] = [[]]"
| "split_ws (x # xs) =
     (if is_space x then [] # split_ws (dropWhile is_space xs)
      else (case split_ws xs of
              p # ps \<Rightarrow> (x # p) # ps
            | [] \<Rightarrow> [[x]]))"
  by pat_completeness auto
termination
  by (relation "measure length") (auto simp: less_Suc_eq_le length_dropWhile_le)

text \<open>\<open>parts.join(sep)\<close>.\<close>

fun join :: "string \<Rightarrow> string list \<Rightarrow> string" where
  "join sep [] = []"
| "join sep [p] = p"
| "join sep (p # q # ps) = p @ sep @ join sep (q # ps)"

text \<open>Truthiness of a string or \<open>null\<close>: \<open>null\<close>, \<open>undefined\<close> and the empty string are falsy.\<close>

definition truthy :: "string option \<Rightarrow> bool" where
  "truthy v = (case v of None \<Rightarrow> False | Some s \<Rightarrow> s \<noteq> [])"

text \<open>\<open>xs[i] || null\<close>: an index out of range reads \<open>undefined\<close>, which is falsy.\<close>

definition index_or_null :: "string list \<Rightarrow> nat \<Rightarrow> string option" where
  "index_or_null xs i = (if i < length xs \<and> xs ! i \<noteq> [] then Some (xs ! i) else None)"


section \<open>Router (scripts/router.js)\<close>

record route =
  skill :: "string option"
  topic :: "string option"
  article :: "string option"
  path :: string
  parts :: "string list"

text \<open>
  \<open>parseHash\<close> reads \<open>window.location.hash\<close>, which is its argument here.
  \<open>hash.slice(1) || '/'\<close> drops the fragment marker and falls back to \<open>/\<close> when nothing is left.
\<close>

definition parseHash :: "string \<Rightarrow> route" where
  "parseHash location_hash =
     (let hash = (if drop 1 location_hash = [] then ''/'' else drop 1 location_hash);
          ps = filter (\<lambda>p. p \<noteq> []) (split_char CHR ''/'' hash)
      in \<lparr> skill = index_or_null ps 0,
           topic = index_or_null ps 1,
           article = index_or_null ps 2,
           path = hash,
           parts = ps \<rparr>)"

text \<open>\<open>navigate(path)\<close>: the value assigned to \<open>window.location.hash\<close>.\<close>

definition navigate :: "string \<Rightarrow> string" where
  "navigate p = (if startsWith p ''#'' then p else ''#'' @ p)"

definition push_if :: "string list \<Rightarrow> string option \<Rightarrow> string list" where
  "push_if ps v = (case v of None \<Rightarrow> ps | Some s \<Rightarrow> if s \<noteq> [] then ps @ [s] else ps)"

definition buildPath :: "string option \<Rightarrow> string option \<Rightarrow> string option \<Rightarrow> string" where
  "buildPath sk tp ar = join ''/'' (push_if (push_if (push_if [''''] sk) tp) ar)"

text \<open>\<open>Router.getArticlePath(route)\<close>: the path built from the route's own segments.\<close>

definition Router_getArticlePath :: "route \<Rightarrow> string option" where
  "Router_getArticlePath r =
     (case (skill r, topic r, article r) of
        (Some s, Some t, Some a) \<Rightarrow>
          if s \<noteq> [] \<and> t \<noteq> [] \<and> a \<noteq> [] then Some (''content/'' @ s @ ''/'' @ t @ ''/'' @ a @ ''.md'')
          else None
      | _ \<Rightarrow> None)"

text \<open>Slug-safe strings: non-empty, without \<open>/\<close>, \<open>#\<close> or whitespace.\<close>

definition slug_safe :: "string \<Rightarrow> bool" where
  "slug_safe s = (s \<noteq> [] \<and> CHR ''/'' \<notin> set s \<and> CHR ''#'' \<notin> set s \<and> \<not> list_ex is_space s)"

text \<open>
  Between the assignment in \<open>navigate\<close> and the read in \<open>parseHash\<close> stands the browser.
  Assigning \<open>v\<close> to \<open>window.location.hash\<close> takes one leading \<open>#\<close> off \<open>v\<close>, drops tab, line
  feed and carriage return, and percent-encodes every character of the fragment
  percent-encode set of the URL standard: the C0 controls, space, the double quote, \<open><\<close>,
  \<open>>\<close>, the backtick, and everything above \<open>~\<close>. Reading \<open>window.location.hash\<close> gives \<open>#\<close>
  and the stored fragment, undecoded, or the empty string when the fragment is empty.
  \<open>location_hash_after v\<close> is what is read after \<open>v\<close> has been assigned.
\<close>

definition url_stripped :: "char \<Rightarrow> bool" where
  "url_stripped c = (c \<in> set [CHR 0x09, CHR 0x0A, CHR 0x0D])"

definition fragment_encoded :: "char \<Rightarrow> bool" where
  "fragment_encoded c =
     ((of_char c :: nat) \<le> 0x20 \<or> 0x7F \<le> (of_char c :: nat)
      \<or> c \<in> set [CHR 0x22, CHR 0x3C, CHR 0x3E, CHR 0x60])"

definition percent_encode :: "char \<Rightarrow> string" where
  "percent_encode c =
     [CHR ''%'', ''0123456789ABCDEF'' ! (of_char c div 16), ''0123456789ABCDEF'' ! (of_char c mod 16)]"

definition fragment_encode :: "string \<Rightarrow> string" where
  "fragment_encode s = concat (map (\<lambda>c. if fragment_encoded c then percent_encode c else [c]) s)"

definition location_hash_after :: "string \<Rightarrow> string" where
  "location_hash_after v =
     (let input = (case v of [] \<Rightarrow> [] | c # cs \<Rightarrow> if c = CHR ''#'' then cs else v);
          fragment = fragment_encode (filter (\<lambda>c. \<not> url_stripped c) input)
      in if fragment = [] then [] else CHR ''#'' # fragment)"

text \<open>
  The route the router parses after \<open>navigate(buildPath(s, t, a))\<close>; and the strings that the
  browser leaves as they are in a fragment.
\<close>

definition route_after_navigate :: "string \<Rightarrow> string \<Rightarrow> string \<Rightarrow> route" where
  "route_after_navigate s t a =
     parseHash (location_hash_after (navigate (buildPath (Some s) (Some t) (Some a))))"

definition fragment_plain :: "string \<Rightarrow> bool" where
  "fragment_plain s = list_all (\<lambda>c. \<not> fragment_encoded c) s"


section \<open>Router: proofs\<close>

lemma split_char_no_sep: "c \<notin> set s \<Longrightarrow> split_char c s = [s]"
  by (induction s) auto

lemma split_char_append_sep:
  "c \<notin> set s \<Longrightarrow> split_char c (s @ c # rest) = s # split_char c rest"
  by (induction s) auto

lemma index_or_null_filtered:
  "index_or_null (filter (\<lambda>p. p \<noteq> []) xs) i =
     (if i < length (filter (\<lambda>p. p \<noteq> []) xs) then Some (filter (\<lambda>p. p \<noteq> []) xs ! i) else None)"
proof -
  have "\<forall>p \<in> set (filter (\<lambda>p. p \<noteq> []) xs). p \<noteq> []"
    by simp
  then show ?thesis
    unfolding index_or_null_def using nth_mem by (metis (no_types, lifting))
qed

lemma split_built:
  assumes "CHR ''/'' \<notin> set s" "CHR ''/'' \<notin> set t" "CHR ''/'' \<notin> set a"
  shows "split_char CHR ''/'' (s @ CHR ''/'' # t @ CHR ''/'' # a) = [s, t, a]"
proof -
  have "split_char CHR ''/'' (s @ CHR ''/'' # t @ CHR ''/'' # a)
          = s # split_char CHR ''/'' (t @ CHR ''/'' # a)"
    using assms(1) by (rule split_char_append_sep)
  also have "split_char CHR ''/'' (t @ CHR ''/'' # a) = t # split_char CHR ''/'' a"
    using assms(2) by (rule split_char_append_sep)
  also have "split_char CHR ''/'' a = [a]"
    using assms(3) by (rule split_char_no_sep)
  finally show ?thesis .
qed

lemma buildPath_three:
  "s \<noteq> [] \<Longrightarrow> t \<noteq> [] \<Longrightarrow> a \<noteq> [] \<Longrightarrow>
     buildPath (Some s) (Some t) (Some a) = ''/'' @ s @ ''/'' @ t @ ''/'' @ a"
  by (simp add: buildPath_def push_if_def)

lemma parseHash_built:
  assumes "s \<noteq> []" "t \<noteq> []" "a \<noteq> []"
    and "CHR ''/'' \<notin> set s" "CHR ''/'' \<notin> set t" "CHR ''/'' \<notin> set a"
  shows "parseHash (''#'' @ ''/'' @ s @ ''/'' @ t @ ''/'' @ a)
           = \<lparr> skill = Some s, topic = Some t, article = Some a,
               path = ''/'' @ s @ ''/'' @ t @ ''/'' @ a, parts = [s, t, a] \<rparr>"
proof -
  note sp = split_built [OF assms(4-6)]
  show ?thesis
    using assms(1-3) by (simp add: parseHash_def Let_def sp index_or_null_def)
qed

lemma fragment_encode_append:
  "fragment_encode (xs @ ys) = fragment_encode xs @ fragment_encode ys"
  by (simp add: fragment_encode_def)

lemma fragment_encode_slash: "fragment_encode [CHR ''/''] = [CHR ''/'']"
  by code_simp

lemma hex_digit_no_slash: "k < 16 \<Longrightarrow> ''0123456789ABCDEF'' ! k \<noteq> CHR ''/''"
proof -
  assume "k < 16"
  then have "''0123456789ABCDEF'' ! k \<in> set ''0123456789ABCDEF''"
    by (intro nth_mem) simp
  then show ?thesis by auto
qed

lemma percent_encode_no_slash: "CHR ''/'' \<notin> set (percent_encode c)"
proof -
  have "(of_char c :: nat) < 256" by simp
  then have d: "(of_char c :: nat) div 16 < 16" and m: "(of_char c :: nat) mod 16 < 16"
    by arith+
  from hex_digit_no_slash [OF d] hex_digit_no_slash [OF m] show ?thesis
    by (auto simp: percent_encode_def)
qed

lemma fragment_encode_no_slash: "CHR ''/'' \<notin> set s \<Longrightarrow> CHR ''/'' \<notin> set (fragment_encode s)"
  using percent_encode_no_slash by (induction s) (auto simp: fragment_encode_def)

lemma fragment_encode_nonempty: "s \<noteq> [] \<Longrightarrow> fragment_encode s \<noteq> []"
  by (cases s) (simp_all add: fragment_encode_def percent_encode_def)

lemma fragment_encode_plain: "fragment_plain s \<Longrightarrow> fragment_encode s = s"
  by (induction s) (simp_all add: fragment_plain_def fragment_encode_def)

lemma url_stripped_is_space: "url_stripped c \<Longrightarrow> is_space c"
  by (auto simp: url_stripped_def is_space_def)

lemma slug_safe_not_stripped: "slug_safe s \<Longrightarrow> filter (\<lambda>c. \<not> url_stripped c) s = s"
proof -
  assume "slug_safe s"
  then have "\<forall>c \<in> set s. \<not> is_space c"
    by (simp add: slug_safe_def list_ex_iff)
  then have "\<forall>c \<in> set s. \<not> url_stripped c"
    using url_stripped_is_space by blast
  then show ?thesis by (simp add: filter_id_conv)
qed

lemma location_hash_after_hash:
  "location_hash_after (CHR ''#'' # x)
     = (if fragment_encode (filter (\<lambda>c. \<not> url_stripped c) x) = [] then []
        else CHR ''#'' # fragment_encode (filter (\<lambda>c. \<not> url_stripped c) x))"
  by (simp add: location_hash_after_def)

lemma location_hash_after_built:
  assumes "slug_safe s" "slug_safe t" "slug_safe a"
  shows "location_hash_after (navigate (buildPath (Some s) (Some t) (Some a)))
           = ''#'' @ ''/'' @ fragment_encode s @ ''/'' @ fragment_encode t @ ''/'' @ fragment_encode a"
proof -
  from assms have ne: "s \<noteq> []" "t \<noteq> []" "a \<noteq> []"
    by (simp_all add: slug_safe_def)
  have nav: "navigate (buildPath (Some s) (Some t) (Some a)) = CHR ''#'' # (''/'' @ s @ ''/'' @ t @ ''/'' @ a)"
    by (simp add: buildPath_three [OF ne] navigate_def startsWith_def)
  have sl: "\<not> url_stripped CHR ''/''"
    by (simp add: url_stripped_def)
  have f: "filter (\<lambda>c. \<not> url_stripped c) (''/'' @ s @ ''/'' @ t @ ''/'' @ a) = ''/'' @ s @ ''/'' @ t @ ''/'' @ a"
    using sl slug_safe_not_stripped [OF assms(1)] slug_safe_not_stripped [OF assms(2)]
      slug_safe_not_stripped [OF assms(3)] by simp
  have e: "fragment_encode (''/'' @ s @ ''/'' @ t @ ''/'' @ a)
             = ''/'' @ fragment_encode s @ ''/'' @ fragment_encode t @ ''/'' @ fragment_encode a"
    using fragment_encode_slash by (simp only: fragment_encode_append)
  show ?thesis
    unfolding nav location_hash_after_hash f e by simp
qed

lemma route_after_navigate_encoded:
  assumes "slug_safe s" "slug_safe t" "slug_safe a"
  shows "skill (route_after_navigate s t a) = Some (fragment_encode s)"
    and "topic (route_after_navigate s t a) = Some (fragment_encode t)"
    and "article (route_after_navigate s t a) = Some (fragment_encode a)"
proof -
  from assms have ne: "fragment_encode s \<noteq> []" "fragment_encode t \<noteq> []" "fragment_encode a \<noteq> []"
    by (simp_all add: slug_safe_def fragment_encode_nonempty)
  from assms have ns: "CHR ''/'' \<notin> set (fragment_encode s)" "CHR ''/'' \<notin> set (fragment_encode t)"
    "CHR ''/'' \<notin> set (fragment_encode a)"
    by (simp_all add: slug_safe_def fragment_encode_no_slash)
  have r: "route_after_navigate s t a
             = \<lparr> skill = Some (fragment_encode s), topic = Some (fragment_encode t),
                 article = Some (fragment_encode a),
                 path = ''/'' @ fragment_encode s @ ''/'' @ fragment_encode t @ ''/'' @ fragment_encode a,
                 parts = [fragment_encode s, fragment_encode t, fragment_encode a] \<rparr>"
    unfolding route_after_navigate_def location_hash_after_built [OF assms]
    by (rule parseHash_built [OF ne ns])
  show "skill (route_after_navigate s t a) = Some (fragment_encode s)"
    and "topic (route_after_navigate s t a) = Some (fragment_encode t)"
    and "article (route_after_navigate s t a) = Some (fragment_encode a)"
    unfolding r by simp_all
qed

text \<open>
  C4 as stated fails. The string \<open>a"b\<close> is slug-safe, and after
  \<open>navigate(buildPath('a"b', 't', 'x'))\<close> the browser's fragment is \<open>#/a%22b/t/x\<close>: the route
  that \<open>parseHash\<close> returns has the skill \<open>a%22b\<close>.
\<close>

theorem parseHash_buildPath_encoded_counterexample:
  "slug_safe (''a'' @ [CHR 0x22] @ ''b'') \<and> slug_safe ''t'' \<and> slug_safe ''x''
   \<and> buildPath (Some (''a'' @ [CHR 0x22] @ ''b'')) (Some ''t'') (Some ''x'')
       = ''/a'' @ [CHR 0x22] @ ''b/t/x''
   \<and> location_hash_after (navigate (''/a'' @ [CHR 0x22] @ ''b/t/x'')) = ''#/a%22b/t/x''
   \<and> skill (route_after_navigate (''a'' @ [CHR 0x22] @ ''b'') ''t'' ''x'') = Some ''a%22b''
   \<and> skill (route_after_navigate (''a'' @ [CHR 0x22] @ ''b'') ''t'' ''x'')
       \<noteq> Some (''a'' @ [CHR 0x22] @ ''b'')"
  by code_simp

text \<open>
  C4, amended. For slug-safe strings \<open>s\<close>, \<open>t\<close>, \<open>a\<close> made of characters that the browser
  leaves as they are in a URL fragment (printable ASCII other than the double quote, \<open><\<close>,
  \<open>>\<close> and the backtick), parsing the fragment after \<open>navigate(buildPath(s, t, a))\<close> gives a
  route whose skill is \<open>s\<close>, whose topic is \<open>t\<close> and whose article is \<open>a\<close>. For every slug-safe
  triple the route holds the percent-encoded segments, which \<open>parseHash\<close> does not decode.
\<close>

theorem parseHash_buildPath_roundtrip:
  assumes "slug_safe s" and "slug_safe t" and "slug_safe a"
  shows "(fragment_plain s \<and> fragment_plain t \<and> fragment_plain a \<longrightarrow>
            skill (route_after_navigate s t a) = Some s
          \<and> topic (route_after_navigate s t a) = Some t
          \<and> article (route_after_navigate s t a) = Some a)
       \<and> skill (route_after_navigate s t a) = Some (fragment_encode s)
       \<and> topic (route_after_navigate s t a) = Some (fragment_encode t)
       \<and> article (route_after_navigate s t a) = Some (fragment_encode a)"
  using route_after_navigate_encoded [OF assms] by (simp add: fragment_encode_plain)

theorem parseHash_buildPath_roundtrip_witness:
  "slug_safe ''sf'' \<and> slug_safe ''admin'' \<and> slug_safe ''user-management''
   \<and> fragment_plain ''sf'' \<and> fragment_plain ''admin'' \<and> fragment_plain ''user-management''
   \<and> buildPath (Some ''sf'') (Some ''admin'') (Some ''user-management'') = ''/sf/admin/user-management''
   \<and> skill (route_after_navigate ''sf'' ''admin'' ''user-management'') = Some ''sf''
   \<and> topic (route_after_navigate ''sf'' ''admin'' ''user-management'') = Some ''admin''
   \<and> article (route_after_navigate ''sf'' ''admin'' ''user-management'') = Some ''user-management''"
proof -
  have h1: "slug_safe ''sf''" and h2: "slug_safe ''admin''" and h3: "slug_safe ''user-management''"
    by (simp_all add: slug_safe_def is_space_def)
  have p: "fragment_plain ''sf''" "fragment_plain ''admin''" "fragment_plain ''user-management''"
    by code_simp+
  have b: "buildPath (Some ''sf'') (Some ''admin'') (Some ''user-management'') = ''/sf/admin/user-management''"
    by (simp add: buildPath_def push_if_def)
  from parseHash_buildPath_roundtrip [OF h1 h2 h3] p
  have "skill (route_after_navigate ''sf'' ''admin'' ''user-management'') = Some ''sf''
      \<and> topic (route_after_navigate ''sf'' ''admin'' ''user-management'') = Some ''admin''
      \<and> article (route_after_navigate ''sf'' ''admin'' ''user-management'') = Some ''user-management''"
    by blast
  with h1 h2 h3 p b show ?thesis by blast
qed

text \<open>
  C10. Every route that \<open>parseHash\<close> produces is prefix-closed: an article is selected only
  together with a topic, and a topic only together with a skill.
\<close>

theorem parseHash_prefix_closed:
  "(article (parseHash h) \<noteq> None \<longrightarrow> topic (parseHash h) \<noteq> None)
 \<and> (topic (parseHash h) \<noteq> None \<longrightarrow> skill (parseHash h) \<noteq> None)"
  by (simp add: parseHash_def Let_def index_or_null_filtered)

theorem parseHash_prefix_closed_witness:
  "article (parseHash ''#//a///b/c/d'') = Some ''c''
   \<and> topic (parseHash ''#//a///b/c/d'') = Some ''b''
   \<and> skill (parseHash ''#//a///b/c/d'') = Some ''a''
   \<and> topic (parseHash ''#/a//'') = None"
  using parseHash_prefix_closed [of "''#//a///b/c/d''"]
  by (simp add: parseHash_def Let_def index_or_null_def)

section \<open>Navigation and route dispatch (scripts/navigation.js, scripts/app.js)\<close>

record manifest_article =
  ar_slug :: string
  ar_title :: string
  ar_file :: string

record manifest_topic =
  tp_slug :: string
  tp_name :: string
  tp_folder :: string
  tp_order :: int
  tp_articles :: "manifest_article list"

record manifest_skill =
  sk_slug :: string
  sk_name :: string
  sk_folder :: string
  sk_order :: int
  sk_topics :: "manifest_topic list"

record manifest =
  generated :: string
  skills :: "manifest_skill list"

text \<open>The content path convention: \<open>content/<skillFolder>/<topicFolder>/<articleFile>.md\<close>.\<close>

definition content_path :: "manifest_skill \<Rightarrow> manifest_topic \<Rightarrow> manifest_article \<Rightarrow> string" where
  "content_path s t a = ''content/'' @ sk_folder s @ ''/'' @ tp_folder t @ ''/'' @ ar_file a @ ''.md''"

text \<open>
  Modelled from the spec: \<open>Navigation.getArticlePath(skill, topic, article)\<close>, whose file
  \<open>scripts/navigation.js\<close> is not among the sources (only its caller \<open>App.handleRouteChange\<close>
  is). The spec: it "resolves a route's slugs back to a fetchable content path by looking up
  the matching tree node and substituting its stored file name; returns a not-found signal if
  no match exists at any level (unknown skill, unknown topic, or unknown article slug) rather
  than guessing". The lookup at each level takes the first node with the slug; the not-found
  signal is \<^term>\<open>None\<close>.
\<close>

definition Navigation_getArticlePath :: "manifest \<Rightarrow> string \<Rightarrow> string \<Rightarrow> string \<Rightarrow> string option" where
  "Navigation_getArticlePath m sk tp ar =
     (case find (\<lambda>s. sk_slug s = sk) (skills m) of
        None \<Rightarrow> None
      | Some s \<Rightarrow>
          (case find (\<lambda>t. tp_slug t = tp) (sk_topics s) of
             None \<Rightarrow> None
           | Some t \<Rightarrow>
               (case find (\<lambda>a. ar_slug a = ar) (tp_articles t) of
                  None \<Rightarrow> None
                | Some a \<Rightarrow> Some (content_path s t a))))"

text \<open>
  \<open>App.handleRouteChange(route)\<close>, as far as the markdown component is concerned: which of its
  methods is called, and with which path.
\<close>

datatype markdown_call = Load string | RenderError | RenderWelcome

definition handleRouteChange :: "manifest \<Rightarrow> route \<Rightarrow> markdown_call" where
  "handleRouteChange m r =
     (case (skill r, topic r, article r) of
        (Some s, Some t, Some a) \<Rightarrow>
          if s \<noteq> [] \<and> t \<noteq> [] \<and> a \<noteq> [] then
            (case Navigation_getArticlePath m s t a of
               Some p \<Rightarrow> if p \<noteq> [] then Load p else RenderError
             | None \<Rightarrow> RenderError)
          else RenderWelcome
      | _ \<Rightarrow> RenderWelcome)"

text \<open>
  A route's slugs resolve to the nodes \<open>s\<close>, \<open>t\<close>, \<open>a\<close> of the manifest; and the data model's
  invariant that slugs are unique within their parent scope.
\<close>

definition resolves ::
  "manifest \<Rightarrow> string \<Rightarrow> string \<Rightarrow> string \<Rightarrow> manifest_skill \<Rightarrow> manifest_topic \<Rightarrow> manifest_article \<Rightarrow> bool" where
  "resolves m sk tp ar s t a =
     (s \<in> set (skills m) \<and> sk_slug s = sk \<and>
      t \<in> set (sk_topics s) \<and> tp_slug t = tp \<and>
      a \<in> set (tp_articles t) \<and> ar_slug a = ar)"

definition unique_slugs :: "manifest \<Rightarrow> bool" where
  "unique_slugs m =
     (distinct (map sk_slug (skills m)) \<and>
      list_all (\<lambda>s. distinct (map tp_slug (sk_topics s)) \<and>
                    list_all (\<lambda>t. distinct (map ar_slug (tp_articles t))) (sk_topics s))
               (skills m))"

definition scenario_article :: manifest_article where
  "scenario_article =
     \<lparr> ar_slug = ''user-management'', ar_title = ''User Management in Salesforce'',
       ar_file = ''user-management'' \<rparr>"

definition scenario_topic :: manifest_topic where
  "scenario_topic =
     \<lparr> tp_slug = ''admin'', tp_name = ''Admin'', tp_folder = ''Admin'', tp_order = 999,
       tp_articles = [scenario_article] \<rparr>"

definition scenario_skill :: manifest_skill where
  "scenario_skill =
     \<lparr> sk_slug = ''sf'', sk_name = ''Salesforce'', sk_folder = ''Salesforce'', sk_order = 999,
       sk_topics = [scenario_topic] \<rparr>"

definition scenario_manifest :: manifest where
  "scenario_manifest = \<lparr> generated = [], skills = [scenario_skill] \<rparr>"


section \<open>Navigation: proofs\<close>

lemmas scenario_defs =
  scenario_manifest_def scenario_skill_def scenario_topic_def scenario_article_def

lemma find_by_key_distinct:
  "distinct (map f xs) \<Longrightarrow> x \<in> set xs \<Longrightarrow> find (\<lambda>y. f y = f x) xs = Some x"
  by (induction xs) (auto simp: image_iff)

lemma find_Some_member: "find P xs = Some x \<Longrightarrow> x \<in> set xs \<and> P x"
  by (induction xs) (auto split: if_splits)

lemma getArticlePath_resolved:
  assumes "unique_slugs m" and "resolves m sk tp ar s t a"
  shows "Navigation_getArticlePath m sk tp ar = Some (content_path s t a)"
proof -
  from assms(2) have s: "s \<in> set (skills m)" "sk_slug s = sk"
    and t: "t \<in> set (sk_topics s)" "tp_slug t = tp"
    and a: "a \<in> set (tp_articles t)" "ar_slug a = ar"
    by (simp_all add: resolves_def)
  from assms(1) s(1) t(1) have d: "distinct (map sk_slug (skills m))"
    "distinct (map tp_slug (sk_topics s))" "distinct (map ar_slug (tp_articles t))"
    by (auto simp: unique_slugs_def list_all_iff)
  have "find (\<lambda>y. sk_slug y = sk) (skills m) = Some s"
    using find_by_key_distinct [OF d(1) s(1)] s(2) by simp
  moreover have "find (\<lambda>y. tp_slug y = tp) (sk_topics s) = Some t"
    using find_by_key_distinct [OF d(2) t(1)] t(2) by simp
  moreover have "find (\<lambda>y. ar_slug y = ar) (tp_articles t) = Some a"
    using find_by_key_distinct [OF d(3) a(1)] a(2) by simp
  ultimately show ?thesis
    by (simp add: Navigation_getArticlePath_def)
qed

lemma getArticlePath_sound:
  assumes "Navigation_getArticlePath m sk tp ar = Some p"
  shows "\<exists>s t a. resolves m sk tp ar s t a \<and> p = content_path s t a"
proof -
  from assms obtain s t a where
    "find (\<lambda>y. sk_slug y = sk) (skills m) = Some s"
    "find (\<lambda>y. tp_slug y = tp) (sk_topics s) = Some t"
    "find (\<lambda>y. ar_slug y = ar) (tp_articles t) = Some a"
    "p = content_path s t a"
    by (auto simp: Navigation_getArticlePath_def split: option.splits)
  then have "resolves m sk tp ar s t a \<and> p = content_path s t a"
    by (auto simp: resolves_def dest: find_Some_member)
  then show ?thesis by blast
qed

lemma scenario_dispatch:
  "handleRouteChange scenario_manifest (parseHash ''#/sf/admin/user-management'')
     = Load ''content/Salesforce/Admin/user-management.md''"
  by (simp add: handleRouteChange_def parseHash_def Let_def index_or_null_def
      Navigation_getArticlePath_def scenario_defs content_path_def)

text \<open>
  \<open>Router.getArticlePath\<close> knows no manifest: it puts the route's slugs into the path. The
  application does not call it; \<open>handleRouteChange\<close> asks the navigation component.
\<close>

lemma Router_getArticlePath_scenario:
  "Router_getArticlePath (parseHash ''#/sf/admin/user-management'')
     = Some ''content/sf/admin/user-management.md''"
  by (simp add: Router_getArticlePath_def parseHash_def Let_def index_or_null_def)

text \<open>
  C1. On a manifest whose slugs are unique within their parent, a route whose three slugs
  resolve to the nodes \<open>s\<close>, \<open>t\<close>, \<open>a\<close> gets exactly
  \<open>content/<folder of s>/<folder of t>/<file of a>.md\<close>; a route that does not resolve at
  some level gets the not-found signal; a path that is returned is never a guess, it is the
  path of nodes the slugs resolve to. In the spec's scenario the route
  \<open>#/sf/admin/user-management\<close> makes the application load
  \<open>content/Salesforce/Admin/user-management.md\<close>.
\<close>

theorem getArticlePath_correct:
  assumes "unique_slugs m"
  shows "(resolves m sk tp ar s t a \<longrightarrow>
            Navigation_getArticlePath m sk tp ar = Some (content_path s t a))
       \<and> ((\<nexists>s' t' a'. resolves m sk tp ar s' t' a') \<longrightarrow> Navigation_getArticlePath m sk tp ar = None)
       \<and> (\<forall>p. Navigation_getArticlePath m sk tp ar = Some p \<longrightarrow>
            (\<exists>s' t' a'. resolves m sk tp ar s' t' a' \<and> p = content_path s' t' a'))
       \<and> Navigation_getArticlePath scenario_manifest ''sf'' ''admin'' ''user-management''
            = Some ''content/Salesforce/Admin/user-management.md''
       \<and> handleRouteChange scenario_manifest (parseHash ''#/sf/admin/user-management'')
            = Load ''content/Salesforce/Admin/user-management.md''"
proof (intro conjI impI allI)
  assume "resolves m sk tp ar s t a"
  with assms show "Navigation_getArticlePath m sk tp ar = Some (content_path s t a)"
    by (rule getArticlePath_resolved)
next
  assume none: "\<nexists>s' t' a'. resolves m sk tp ar s' t' a'"
  show "Navigation_getArticlePath m sk tp ar = None"
  proof (cases "Navigation_getArticlePath m sk tp ar")
    case None
    then show ?thesis .
  next
    case (Some p)
    from getArticlePath_sound [OF Some] none show ?thesis by blast
  qed
next
  fix p
  assume "Navigation_getArticlePath m sk tp ar = Some p"
  then show "\<exists>s' t' a'. resolves m sk tp ar s' t' a' \<and> p = content_path s' t' a'"
    by (rule getArticlePath_sound)
next
  show "Navigation_getArticlePath scenario_manifest ''sf'' ''admin'' ''user-management''
          = Some ''content/Salesforce/Admin/user-management.md''"
    by (simp add: Navigation_getArticlePath_def scenario_defs content_path_def)
next
  show "handleRouteChange scenario_manifest (parseHash ''#/sf/admin/user-management'')
          = Load ''content/Salesforce/Admin/user-management.md''"
    by (rule scenario_dispatch)
qed

theorem getArticlePath_correct_witness:
  "unique_slugs scenario_manifest
   \<and> resolves scenario_manifest ''sf'' ''admin'' ''user-management''
       scenario_skill scenario_topic scenario_article
   \<and> Navigation_getArticlePath scenario_manifest ''sf'' ''admin'' ''user-management''
       = Some (content_path scenario_skill scenario_topic scenario_article)
   \<and> content_path scenario_skill scenario_topic scenario_article
       = ''content/Salesforce/Admin/user-management.md''
   \<and> Navigation_getArticlePath scenario_manifest ''sf'' ''admin'' ''apex-basics'' = None
   \<and> Navigation_getArticlePath scenario_manifest ''Salesforce'' ''Admin'' ''user-management'' = None"
proof -
  have u: "unique_slugs scenario_manifest"
    by (simp add: unique_slugs_def scenario_defs)
  have r: "resolves scenario_manifest ''sf'' ''admin'' ''user-management''
             scenario_skill scenario_topic scenario_article"
    by (simp add: resolves_def scenario_defs)
  have n1: "\<nexists>s' t' a'. resolves scenario_manifest ''sf'' ''admin'' ''apex-basics'' s' t' a'"
    by (auto simp: resolves_def scenario_defs)
  have n2: "\<nexists>s' t' a'. resolves scenario_manifest ''Salesforce'' ''Admin'' ''user-management'' s' t' a'"
    by (auto simp: resolves_def scenario_defs)
  have c: "content_path scenario_skill scenario_topic scenario_article
             = ''content/Salesforce/Admin/user-management.md''"
    by (simp add: content_path_def scenario_defs)
  from getArticlePath_correct [OF u, of "''sf''" "''admin''" "''user-management''"
      scenario_skill scenario_topic scenario_article] r
  have p1: "Navigation_getArticlePath scenario_manifest ''sf'' ''admin'' ''user-management''
              = Some (content_path scenario_skill scenario_topic scenario_article)"
    by blast
  from getArticlePath_correct [OF u, of "''sf''" "''admin''" "''apex-basics''"] n1
  have p2: "Navigation_getArticlePath scenario_manifest ''sf'' ''admin'' ''apex-basics'' = None"
    by blast
  from getArticlePath_correct [OF u, of "''Salesforce''" "''Admin''" "''user-management''"] n2
  have p3: "Navigation_getArticlePath scenario_manifest ''Salesforce'' ''Admin'' ''user-management'' = None"
    by blast
  from u r p1 c p2 p3 show ?thesis by blast
qed

section \<open>Search (scripts/search.js)\<close>

text \<open>The flat article record that Navigation hands to Search, and a search result: the same fields plus the score.\<close>

record flat_article =
  fa_title :: string
  fa_skill :: string
  fa_skillSlug :: string
  fa_topic :: string
  fa_topicSlug :: string
  fa_slug :: string
  fa_file :: string

record scored_article = flat_article +
  score :: int

text \<open>\<open>{ ...article, score }\<close>.\<close>

definition with_score :: "flat_article \<Rightarrow> int \<Rightarrow> scored_article" where
  "with_score a n =
     \<lparr> fa_title = fa_title a, fa_skill = fa_skill a, fa_skillSlug = fa_skillSlug a,
       fa_topic = fa_topic a, fa_topicSlug = fa_topicSlug a, fa_slug = fa_slug a,
       fa_file = fa_file a, score = n \<rparr>"

text \<open>\<open>query.split(/\s+/).filter(Boolean)\<close>.\<close>

definition terms_of :: "string \<Rightarrow> string list" where
  "terms_of query = filter (\<lambda>t. t \<noteq> []) (split_ws query)"

text \<open>One round of the \<open>terms.forEach\<close> loop: what it adds to the score.\<close>

definition term_points :: "string \<Rightarrow> string \<Rightarrow> int" where
  "term_points titleLower term =
     (if str_includes titleLower term
      then 10 + (if startsWith titleLower term then 5 else 0)
      else 0)"

text \<open>The score the callback of \<open>map\<close> computes for one article.\<close>

definition article_score :: "string \<Rightarrow> string list \<Rightarrow> flat_article \<Rightarrow> int" where
  "article_score query terms a =
     (let titleLower = toLowerCase (fa_title a);
          score0 = fold (\<lambda>term sc. sc + term_points titleLower term) terms 0;
          score1 = (if str_includes (toLowerCase (fa_skill a)) query then score0 + 3 else score0);
          score2 = (if str_includes (toLowerCase (fa_topic a)) query then score1 + 2 else score1)
      in score2)"

text \<open>
  \<open>search(query)\<close> over \<open>this.articles\<close>. \<open>Array.prototype.sort\<close> is stable, and with the
  comparator \<open>b.score - a.score\<close> it sorts by descending score: the stable sort by the key
  \<open>- score\<close>.
\<close>

definition search :: "flat_article list \<Rightarrow> string \<Rightarrow> scored_article list" where
  "search articles query =
     (let terms = terms_of query in
      take 10
        (sort_key (\<lambda>r. - score r)
          (filter (\<lambda>r. score r > 0)
            (map (\<lambda>a. with_score a (article_score query terms a)) articles))))"

text \<open>
  \<open>handleInput()\<close>, with the value of the input field as argument: the results passed to
  \<open>showResults\<close>, or \<^term>\<open>None\<close> when the panel is closed instead.
\<close>

definition handleInput :: "flat_article list \<Rightarrow> string \<Rightarrow> scored_article list option" where
  "handleInput articles v =
     (let query = toLowerCase (trim v) in
      if length query < 2 then None else Some (search articles query))"

text \<open>The score of one article for a query as \<open>search\<close> computes it.\<close>

definition score_for :: "string \<Rightarrow> flat_article \<Rightarrow> int" where
  "score_for query a = article_score query (terms_of query) a"

text \<open>
  The score in the words of the specification, for comparison: the query is lowercased and
  split into terms; 10 for each term the lowercased title contains, 5 more for each such term
  the title starts with, 3 if the lowercased skill name contains the whole lowercased query,
  2 if the lowercased topic name does. \<open>spec_points q a\<close> is the sum for the lowercased query
  \<open>q\<close>, and \<open>spec_score\<close> lowercases the query first.
\<close>

definition spec_points :: "string \<Rightarrow> flat_article \<Rightarrow> int" where
  "spec_points q a =
     (let terms = filter (\<lambda>t. t \<noteq> []) (split_ws q);
          titleLower = toLowerCase (fa_title a)
      in 10 * int (length (filter (\<lambda>t. str_includes titleLower t) terms))
       + 5 * int (length (filter (\<lambda>t. str_includes titleLower t \<and> startsWith titleLower t) terms))
       + (if str_includes (toLowerCase (fa_skill a)) q then 3 else 0)
       + (if str_includes (toLowerCase (fa_topic a)) q then 2 else 0))"

definition spec_score :: "string \<Rightarrow> flat_article \<Rightarrow> int" where
  "spec_score query a = spec_points (toLowerCase query) a"

text \<open>The article a search result was made from.\<close>

definition article_of :: "scored_article \<Rightarrow> flat_article" where
  "article_of r =
     \<lparr> fa_title = fa_title r, fa_skill = fa_skill r, fa_skillSlug = fa_skillSlug r,
       fa_topic = fa_topic r, fa_topicSlug = fa_topicSlug r, fa_slug = fa_slug r,
       fa_file = fa_file r \<rparr>"

definition apex_basics :: flat_article where
  "apex_basics =
     \<lparr> fa_title = ''Apex Programming Basics'', fa_skill = ''Salesforce'', fa_skillSlug = ''salesforce'',
       fa_topic = ''Developer'', fa_topicSlug = ''developer'', fa_slug = ''apex-basics'',
       fa_file = ''apex-basics'' \<rparr>"

definition async_await :: flat_article where
  "async_await =
     \<lparr> fa_title = ''Async/Await in JavaScript'', fa_skill = ''Frontend'', fa_skillSlug = ''frontend'',
       fa_topic = ''JavaScript'', fa_topicSlug = ''javascript'', fa_slug = ''async-await'',
       fa_file = ''async-await'' \<rparr>"

section \<open>Search: the score and the result list\<close>

lemmas search_eval =
  search_def terms_of_def article_score_def term_points_def with_score_def score_for_def
  toLowerCase_def toLowerCase_char_def is_space_def startsWith_def Let_def

lemma fold_points:
  "fold (\<lambda>term sc. sc + f term) terms (n :: int) = n + sum_list (map f terms)"
  by (induction terms arbitrary: n) simp_all

lemma sum_term_points:
  "sum_list (map (term_points ttl) terms)
     = 10 * int (length (filter (\<lambda>t. str_includes ttl t) terms))
     + 5 * int (length (filter (\<lambda>t. str_includes ttl t \<and> startsWith ttl t) terms))"
  by (induction terms) (simp_all add: term_points_def)

lemma score_for_eq_spec_points: "score_for q a = spec_points q a"
  by (simp add: score_for_def article_score_def spec_points_def terms_of_def Let_def
      fold_points sum_term_points)

lemma article_of_with_score [simp]: "article_of (with_score a n) = a"
  by (simp add: article_of_def with_score_def)

lemma score_with_score [simp]: "score (with_score a n) = n"
  by (simp add: with_score_def)

text \<open>The list \<open>search\<close> sorts and cuts: the scored articles with a positive score, in index order.\<close>

definition scored_matches :: "flat_article list \<Rightarrow> string \<Rightarrow> scored_article list" where
  "scored_matches articles query =
     filter (\<lambda>r. score r > 0) (map (\<lambda>a. with_score a (score_for query a)) articles)"

lemma search_eq: "search arts q = take 10 (sort_key (\<lambda>r. - score r) (scored_matches arts q))"
  by (simp add: search_def scored_matches_def score_for_def Let_def)

lemma scored_matches_member:
  "r \<in> set (scored_matches arts q) \<longleftrightarrow>
     (\<exists>a \<in> set arts. r = with_score a (score_for q a) \<and> 0 < score_for q a)"
  by (auto simp: scored_matches_def)

lemma search_subset: "set (search arts q) \<subseteq> set (scored_matches arts q)"
proof -
  have "set (search arts q) \<subseteq> set (sort_key (\<lambda>r. - score r) (scored_matches arts q))"
    unfolding search_eq by (rule set_take_subset)
  then show ?thesis by simp
qed

lemma search_result:
  assumes "r \<in> set (search arts q)"
  shows "article_of r \<in> set arts \<and> score r = score_for q (article_of r) \<and> 0 < score r"
proof -
  from assms search_subset have "r \<in> set (scored_matches arts q)" by blast
  then obtain a where "a \<in> set arts" "r = with_score a (score_for q a)" "0 < score_for q a"
    by (auto simp: scored_matches_member)
  then show ?thesis by simp
qed

lemma search_complete:
  assumes "length (scored_matches arts q) \<le> 10" and "a \<in> set arts" and "0 < score_for q a"
  shows "with_score a (score_for q a) \<in> set (search arts q)"
proof -
  from assms(1) have "search arts q = sort_key (\<lambda>r. - score r) (scored_matches arts q)"
    by (simp add: search_eq)
  with assms(2,3) show ?thesis
    by (auto simp: scored_matches_member)
qed

lemma handleInput_results:
  assumes "handleInput arts v = Some rs" and "r \<in> set rs"
  shows "article_of r \<in> set arts \<and> score r = spec_score (trim v) (article_of r) \<and> 0 < score r"
proof -
  from assms(1) have "rs = search arts (toLowerCase (trim v))"
    by (simp add: handleInput_def Let_def split: if_splits)
  with assms(2) search_result
  have "article_of r \<in> set arts \<and> score r = score_for (toLowerCase (trim v)) (article_of r) \<and> 0 < score r"
    by blast
  then show ?thesis
    by (simp add: score_for_eq_spec_points spec_score_def)
qed

text \<open>
  C2 as stated fails: \<open>search\<close> does not lowercase its argument. For the query \<open>Apex\<close> the
  stated score of "Apex Programming Basics" is 15, and \<open>search\<close> gives it 0 and leaves it out.
\<close>

theorem search_no_lowercase_counterexample:
  "spec_score ''Apex'' apex_basics = 15
   \<and> score_for ''Apex'' apex_basics = 0
   \<and> search [apex_basics, async_await] ''Apex'' = []"
  by code_simp

text \<open>
  C2, amended. \<open>search(query)\<close> takes the query as it is passed (its callers \<open>handleInput\<close>
  and \<open>handleFocus\<close> trim and lowercase the input field first). Every result is an article of
  the index with the score of the specification's sum for that query, taken without
  lowercasing it: 10 for each whitespace-separated term the lowercased title contains, 5 more
  for each such term it starts with, 3 if the lowercased skill name contains the whole query,
  2 if the lowercased topic name does. That score is positive, so an article with score 0 is
  never a result; and when at most ten articles have a positive score, each of them is a
  result. For a query that is already in lower case the score is the one the specification states, and
  so are the scores of the results \<open>handleInput\<close> shows for the trimmed input.
\<close>

theorem search_score:
  "(\<forall>r \<in> set (search arts q).
      article_of r \<in> set arts \<and> score r = spec_points q (article_of r) \<and> 0 < score r)
 \<and> (\<forall>a \<in> set arts. spec_points q a = 0 \<longrightarrow> a \<notin> article_of ` set (search arts q))
 \<and> (length (scored_matches arts q) \<le> 10 \<longrightarrow>
      (\<forall>a \<in> set arts. 0 < spec_points q a \<longrightarrow> with_score a (spec_points q a) \<in> set (search arts q)))
 \<and> (toLowerCase q = q \<longrightarrow>
      (\<forall>r \<in> set (search arts q). score r = spec_score q (article_of r)))
 \<and> (\<forall>rs. handleInput arts v = Some rs \<longrightarrow>
      (\<forall>r \<in> set rs. article_of r \<in> set arts \<and> score r = spec_score (trim v) (article_of r) \<and> 0 < score r))"
proof (intro conjI ballI impI allI)
  fix r assume "r \<in> set (search arts q)"
  from search_result [OF this]
  show "article_of r \<in> set arts" "score r = spec_points q (article_of r)" "0 < score r"
    by (simp_all add: score_for_eq_spec_points)
next
  fix a assume "a \<in> set arts" and z: "spec_points q a = 0"
  show "a \<notin> article_of ` set (search arts q)"
  proof
    assume "a \<in> article_of ` set (search arts q)"
    then obtain r where r: "r \<in> set (search arts q)" "a = article_of r" by blast
    from search_result [OF r(1)] r(2) z show False
      by (simp add: score_for_eq_spec_points)
  qed
next
  fix a
  assume "length (scored_matches arts q) \<le> 10" "a \<in> set arts" "0 < spec_points q a"
  then show "with_score a (spec_points q a) \<in> set (search arts q)"
    using search_complete [of arts q a] by (simp add: score_for_eq_spec_points)
next
  fix r assume "toLowerCase q = q" "r \<in> set (search arts q)"
  with search_result [OF this(2)] show "score r = spec_score q (article_of r)"
    by (simp add: score_for_eq_spec_points spec_score_def)
next
  fix rs r assume "handleInput arts v = Some rs" "r \<in> set rs"
  from handleInput_results [OF this]
  show "article_of r \<in> set arts" "score r = spec_score (trim v) (article_of r)" "0 < score r"
    by simp_all
qed

theorem search_score_witness:
  "search [apex_basics, async_await] ''apex'' = [with_score apex_basics 15]
   \<and> spec_points ''apex'' apex_basics = 15
   \<and> spec_points ''apex'' async_await = 0
   \<and> toLowerCase ''apex'' = ''apex''
   \<and> spec_score ''apex'' apex_basics = 15
   \<and> handleInput [apex_basics, async_await] '' Apex '' = Some [with_score apex_basics 15]
   \<and> spec_score (trim '' Apex '') apex_basics = 15
   \<and> async_await \<notin> article_of ` set (search [apex_basics, async_await] ''apex'')"
proof -
  have s: "search [apex_basics, async_await] ''apex'' = [with_score apex_basics 15]"
    by code_simp
  have h: "handleInput [apex_basics, async_await] '' Apex '' = Some [with_score apex_basics 15]"
    by code_simp
  have l: "toLowerCase ''apex'' = ''apex''"
    by code_simp
  have m: "with_score apex_basics 15 \<in> set (search [apex_basics, async_await] ''apex'')"
    by (simp add: s)
  have z: "spec_points ''apex'' async_await = 0"
    by code_simp
  note t = search_score [of "[apex_basics, async_await]" "''apex''" "'' Apex ''"]
  from t m have p: "spec_points ''apex'' apex_basics = 15"
    by fastforce
  from t m l have q: "spec_score ''apex'' apex_basics = 15"
    by fastforce
  from t h have k: "spec_score (trim '' Apex '') apex_basics = 15"
    by fastforce
  from t z have n: "async_await \<notin> article_of ` set (search [apex_basics, async_await] ''apex'')"
    by simp
  from s p z l q h k n show ?thesis by blast
qed

text \<open>A small article for examples: title, skill name, topic name, slug.\<close>

definition demo_article :: "string \<Rightarrow> string \<Rightarrow> string \<Rightarrow> string \<Rightarrow> flat_article" where
  "demo_article t s p g =
     \<lparr> fa_title = t, fa_skill = s, fa_skillSlug = s, fa_topic = p, fa_topicSlug = p,
       fa_slug = g, fa_file = g \<rparr>"

lemma search_length: "length (search arts q) \<le> 10"
  by (simp add: search_eq)

lemma search_sorted: "sorted_wrt (\<lambda>r r'. score r \<ge> score r') (search arts q)"
proof -
  have "sorted (map (\<lambda>r. - score r) (sort_key (\<lambda>r. - score r) (scored_matches arts q)))"
    by (rule sorted_sort_key)
  then have "sorted_wrt (\<lambda>r r'. score r \<ge> score r') (sort_key (\<lambda>r. - score r) (scored_matches arts q))"
    unfolding sorted_map by simp
  then show ?thesis
    unfolding search_eq by (rule sorted_wrt_take)
qed

lemma stable_desc:
  "filter (\<lambda>r. score r = k) (sort_key (\<lambda>r. - score r) xs) = filter (\<lambda>r. score r = k) xs"
  using sort_key_stable [of "\<lambda>r. - score r" "- k" xs] by simp

lemma matches_with_score:
  "filter (\<lambda>r. score r = k) (scored_matches arts q)
     = (if 0 < k then filter (\<lambda>r. score r = k) (map (\<lambda>a. with_score a (score_for q a)) arts) else [])"
  unfolding scored_matches_def filter_filter
  by (auto simp: filter_empty_conv intro: filter_cong)

lemma search_ties:
  "prefix (filter (\<lambda>r. score r = k) (search arts q))
          (filter (\<lambda>r. score r = k) (map (\<lambda>a. with_score a (score_for q a)) arts))"
proof -
  have "prefix (filter (\<lambda>r. score r = k) (search arts q))
               (filter (\<lambda>r. score r = k) (sort_key (\<lambda>r. - score r) (scored_matches arts q)))"
    unfolding search_eq by (rule filter_mono_prefix) (rule take_is_prefix)
  then have p: "prefix (filter (\<lambda>r. score r = k) (search arts q))
               (filter (\<lambda>r. score r = k) (scored_matches arts q))"
    by (simp only: stable_desc)
  show ?thesis
  proof (cases "0 < k")
    case True
    with p show ?thesis by (simp only: matches_with_score if_True)
  next
    case False
    with p have "filter (\<lambda>r. score r = k) (search arts q) = []"
      by (simp only: matches_with_score if_False prefix_bot.extremum_unique)
    then show ?thesis by (simp only: Nil_prefix)
  qed
qed

text \<open>
  C3. \<open>search\<close> returns at most ten results, in order of non-increasing score, and for every
  score the results with that score are an initial part of the index's articles with that
  score, in index order: ties keep the order of the flat article index.
\<close>

theorem search_top10_sorted_stable:
  "length (search arts q) \<le> 10
 \<and> sorted_wrt (\<lambda>r r'. score r \<ge> score r') (search arts q)
 \<and> prefix (filter (\<lambda>r. score r = k) (search arts q))
          (filter (\<lambda>r. score r = k) (map (\<lambda>a. with_score a (score_for q a)) arts))"
  using search_length search_sorted search_ties by blast

theorem search_top10_sorted_stable_witness:
  "search [demo_article ''ab'' ''s'' ''p'' ''one'', demo_article ''b'' ''s'' ''p'' ''two'',
           demo_article ''cb'' ''s'' ''p'' ''three'', demo_article ''x'' ''s'' ''p'' ''four''] ''b''
     = [with_score (demo_article ''b'' ''s'' ''p'' ''two'') 15,
        with_score (demo_article ''ab'' ''s'' ''p'' ''one'') 10,
        with_score (demo_article ''cb'' ''s'' ''p'' ''three'') 10]
   \<and> prefix [with_score (demo_article ''ab'' ''s'' ''p'' ''one'') 10,
              with_score (demo_article ''cb'' ''s'' ''p'' ''three'') 10]
        (filter (\<lambda>r. score r = 10)
          (map (\<lambda>a. with_score a (score_for ''b'' a))
            [demo_article ''ab'' ''s'' ''p'' ''one'', demo_article ''b'' ''s'' ''p'' ''two'',
             demo_article ''cb'' ''s'' ''p'' ''three'', demo_article ''x'' ''s'' ''p'' ''four'']))"
proof -
  let ?arts = "[demo_article ''ab'' ''s'' ''p'' ''one'', demo_article ''b'' ''s'' ''p'' ''two'',
                demo_article ''cb'' ''s'' ''p'' ''three'', demo_article ''x'' ''s'' ''p'' ''four'']"
  have s: "search ?arts ''b''
             = [with_score (demo_article ''b'' ''s'' ''p'' ''two'') 15,
                with_score (demo_article ''ab'' ''s'' ''p'' ''one'') 10,
                with_score (demo_article ''cb'' ''s'' ''p'' ''three'') 10]"
    by code_simp
  have f: "filter (\<lambda>r. score r = 10) (search ?arts ''b'')
             = [with_score (demo_article ''ab'' ''s'' ''p'' ''one'') 10,
                with_score (demo_article ''cb'' ''s'' ''p'' ''three'') 10]"
    unfolding s by (simp add: with_score_def)
  from search_top10_sorted_stable [of ?arts "''b''" 10]
  have "prefix (filter (\<lambda>r. score r = 10) (search ?arts ''b''))
          (filter (\<lambda>r. score r = 10) (map (\<lambda>a. with_score a (score_for ''b'' a)) ?arts))"
    by blast
  with s f show ?thesis by simp
qed

section \<open>Search: extending the query by a term\<close>

lemma str_includes_sublist: "str_includes s t \<longleftrightarrow> sublist t s"
  by (induction s) (simp_all add: startsWith_def sublist_Cons_right)

lemma str_includes_query_prefix: "str_includes s (q @ r) \<Longrightarrow> str_includes s q"
  unfolding str_includes_sublist sublist_def by (metis append.assoc)

lemma split_ws_nonempty: "split_ws s \<noteq> []"
  by (induction s rule: split_ws.induct) (auto split: list.splits)

lemma split_ws_nonspace:
  "\<not> is_space x \<Longrightarrow> split_ws (x # xs) = (x # hd (split_ws xs)) # tl (split_ws xs)"
  using split_ws_nonempty [of xs] by (cases "split_ws xs") simp_all

lemma split_ws_word: "\<forall>c \<in> set w. \<not> is_space c \<Longrightarrow> split_ws w = [w]"
  by (induction w) (simp_all add: split_ws_nonspace)

lemma dropWhile_word: "\<forall>c \<in> set w. \<not> is_space c \<Longrightarrow> dropWhile is_space w = w"
  by (cases w) simp_all

lemma filter_split_ws_append:
  assumes "hd (split_ws a) = hd (split_ws b)
         \<and> filter (\<lambda>t. t \<noteq> []) (tl (split_ws a)) = filter (\<lambda>t. t \<noteq> []) (tl (split_ws b)) @ [w]"
  shows "filter (\<lambda>t. t \<noteq> []) (split_ws a) = filter (\<lambda>t. t \<noteq> []) (split_ws b) @ [w]"
proof -
  obtain ha ta where a: "split_ws a = ha # ta"
    using split_ws_nonempty [of a] by (cases "split_ws a") auto
  obtain hb tb where b: "split_ws b = hb # tb"
    using split_ws_nonempty [of b] by (cases "split_ws b") auto
  from assms show ?thesis
    unfolding a b by simp
qed

lemma split_ws_append_term:
  assumes w: "w \<noteq> []" "\<forall>c \<in> set w. \<not> is_space c"
  shows "hd (split_ws (q @ CHR '' '' # w)) = hd (split_ws q)
       \<and> filter (\<lambda>t. t \<noteq> []) (tl (split_ws (q @ CHR '' '' # w)))
           = filter (\<lambda>t. t \<noteq> []) (tl (split_ws q)) @ [w]"
proof (induction q rule: split_ws.induct)
  case 1
  have "split_ws (CHR '' '' # w) = [[], w]"
    using w by (simp add: is_space_def dropWhile_word split_ws_word)
  with w(1) show ?case by simp
next
  case (2 x xs)
  show ?case
  proof (cases "is_space x")
    case False
    with 2(2) show ?thesis
      by (simp del: split_ws.simps add: split_ws_nonspace)
  next
    case True
    let ?d = "dropWhile is_space xs"
    have sp: "is_space CHR '' ''" by (simp add: is_space_def)
    show ?thesis
    proof (cases "?d = []")
      case True
      then have all: "\<forall>c \<in> set xs. is_space c"
        by (simp add: dropWhile_eq_Nil_conv)
      then have "dropWhile is_space (xs @ CHR '' '' # w) = w"
        using sp w by (simp add: dropWhile_append dropWhile_word)
      moreover have "split_ws (dropWhile is_space xs) = [[]]"
        by (simp only: True split_ws.simps)
      ultimately show ?thesis
        using \<open>is_space x\<close> w by (simp add: split_ws_word)
    next
      case False
      then have "\<not> (\<forall>c \<in> set xs. is_space c)"
        by (simp add: dropWhile_eq_Nil_conv)
      then have dw: "dropWhile is_space (xs @ CHR '' '' # w) = ?d @ CHR '' '' # w"
        by (auto simp: dropWhile_append)
      from 2(1) [OF \<open>is_space x\<close>]
      have "filter (\<lambda>t. t \<noteq> []) (split_ws (?d @ CHR '' '' # w))
              = filter (\<lambda>t. t \<noteq> []) (split_ws ?d) @ [w]"
        by (simp add: filter_split_ws_append)
      with \<open>is_space x\<close> dw show ?thesis
        by simp
    qed
  qed
qed

lemma terms_of_append_term:
  assumes "w \<noteq> []" "\<forall>c \<in> set w. \<not> is_space c"
  shows "terms_of (q @ '' '' @ w) = terms_of q @ [w]"
proof -
  from split_ws_append_term [OF assms, of q]
  have "filter (\<lambda>t. t \<noteq> []) (split_ws (q @ CHR '' '' # w))
          = filter (\<lambda>t. t \<noteq> []) (split_ws q) @ [w]"
    by (simp add: filter_split_ws_append)
  then show ?thesis
    by (simp add: terms_of_def)
qed

text \<open>The points for the title, and the bonus for the skill and topic names, of the specification's sum.\<close>

lemma spec_points_append_term:
  assumes "w \<noteq> []" "\<forall>c \<in> set w. \<not> is_space c"
  shows "spec_points (q @ '' '' @ w) a
           = 10 * int (length (filter (\<lambda>t. str_includes (toLowerCase (fa_title a)) t) (terms_of q)))
           + 5 * int (length (filter (\<lambda>t. str_includes (toLowerCase (fa_title a)) t
                                        \<and> startsWith (toLowerCase (fa_title a)) t) (terms_of q)))
           + term_points (toLowerCase (fa_title a)) w
           + (if str_includes (toLowerCase (fa_skill a)) (q @ '' '' @ w) then 3 else 0)
           + (if str_includes (toLowerCase (fa_topic a)) (q @ '' '' @ w) then 2 else 0)"
proof -
  have "filter (\<lambda>t. t \<noteq> []) (split_ws (q @ '' '' @ w)) = terms_of q @ [w]"
    using terms_of_append_term [OF assms, of q] by (simp only: terms_of_def)
  then show ?thesis
    by (simp add: spec_points_def Let_def term_points_def)
qed

lemma bonus_antitone:
  "(if str_includes s (q @ r) then (n :: int) else 0) \<le> (if str_includes s q then n else 0) \<or> n < 0"
  using str_includes_query_prefix [of s q r] by auto

lemma score_extend_bounds:
  assumes "w \<noteq> []" "\<forall>c \<in> set w. \<not> is_space c"
  shows "score_for q b + term_points (toLowerCase (fa_title b)) w - 5 \<le> score_for (q @ '' '' @ w) b"
    and "score_for (q @ '' '' @ w) b \<le> score_for q b + term_points (toLowerCase (fa_title b)) w"
proof -
  let ?q' = "q @ '' '' @ w"
  have s3: "(if str_includes (toLowerCase (fa_skill b)) ?q' then (3::int) else 0)
              \<le> (if str_includes (toLowerCase (fa_skill b)) q then 3 else 0)"
    using bonus_antitone [of "toLowerCase (fa_skill b)" q "'' '' @ w" 3] by simp
  have s2: "(if str_includes (toLowerCase (fa_topic b)) ?q' then (2::int) else 0)
              \<le> (if str_includes (toLowerCase (fa_topic b)) q then 2 else 0)"
    using bonus_antitone [of "toLowerCase (fa_topic b)" q "'' '' @ w" 2] by simp
  have l3: "(0::int) \<le> (if str_includes (toLowerCase (fa_skill b)) ?q' then 3 else 0)"
    and u3: "(if str_includes (toLowerCase (fa_skill b)) q then 3 else 0) \<le> (3::int)"
    and l2: "(0::int) \<le> (if str_includes (toLowerCase (fa_topic b)) ?q' then 2 else 0)"
    and u2: "(if str_includes (toLowerCase (fa_topic b)) q then 2 else 0) \<le> (2::int)"
    by simp_all
  have old: "score_for q b
           = 10 * int (length (filter (\<lambda>t. str_includes (toLowerCase (fa_title b)) t) (terms_of q)))
           + 5 * int (length (filter (\<lambda>t. str_includes (toLowerCase (fa_title b)) t
                                        \<and> startsWith (toLowerCase (fa_title b)) t) (terms_of q)))
           + (if str_includes (toLowerCase (fa_skill b)) q then 3 else 0)
           + (if str_includes (toLowerCase (fa_topic b)) q then 2 else 0)"
    by (simp add: score_for_eq_spec_points spec_points_def Let_def terms_of_def)
  have new: "score_for ?q' b
           = 10 * int (length (filter (\<lambda>t. str_includes (toLowerCase (fa_title b)) t) (terms_of q)))
           + 5 * int (length (filter (\<lambda>t. str_includes (toLowerCase (fa_title b)) t
                                        \<and> startsWith (toLowerCase (fa_title b)) t) (terms_of q)))
           + term_points (toLowerCase (fa_title b)) w
           + (if str_includes (toLowerCase (fa_skill b)) ?q' then 3 else 0)
           + (if str_includes (toLowerCase (fa_topic b)) ?q' then 2 else 0)"
    unfolding score_for_eq_spec_points by (rule spec_points_append_term [OF assms])
  show "score_for q b + term_points (toLowerCase (fa_title b)) w - 5 \<le> score_for ?q' b"
    unfolding old new using l3 u3 l2 u2 by linarith
  show "score_for ?q' b \<le> score_for q b + term_points (toLowerCase (fa_title b)) w"
    unfolding old new using s3 s2 by linarith
qed

lemma term_points_bounds:
  "term_points s w \<le> 15" "0 \<le> term_points s w"
  "str_includes s w \<Longrightarrow> 10 \<le> term_points s w"
  "\<not> str_includes s w \<Longrightarrow> term_points s w = 0"
  by (simp_all add: term_points_def)

definition learn_apex :: flat_article where
  "learn_apex = demo_article ''Learn Apex Basics'' ''Apex'' ''Dev'' ''learn-apex''"

definition basics_of_apex :: flat_article where
  "basics_of_apex = demo_article ''Basics of Apex'' ''Salesforce'' ''Dev'' ''basics-of-apex''"

text \<open>
  C5 as stated fails. For the query \<open>apex\<close> the article "Learn Apex Basics" of the skill
  "Apex" scores 13 and outranks "Basics of Apex" with 10. The term \<open>basics\<close> matches the
  first article; for \<open>apex basics\<close> it scores 20 and the second, whose title starts with the
  new term, 25.
\<close>

theorem search_monotonic_counterexample:
  "score_for ''apex'' learn_apex = 13
   \<and> score_for ''apex'' basics_of_apex = 10
   \<and> search [learn_apex, basics_of_apex] ''apex''
       = [with_score learn_apex 13, with_score basics_of_apex 10]
   \<and> str_includes (toLowerCase (fa_title learn_apex)) ''basics''
   \<and> score_for (''apex'' @ '' '' @ ''basics'') learn_apex = 20
   \<and> score_for (''apex'' @ '' '' @ ''basics'') basics_of_apex = 25
   \<and> search [learn_apex, basics_of_apex] (''apex'' @ '' '' @ ''basics'')
       = [with_score basics_of_apex 25, with_score learn_apex 20]"
  by code_simp

text \<open>
  C5, amended. Let \<open>w\<close> be a non-empty term without whitespace that the lowercased title of
  an article \<open>a\<close> contains. Extending the query from \<open>q\<close> to \<open>q + ' ' + w\<close> raises the score of
  \<open>a\<close> by at least 5 (at least 10 for the title; the bonuses for skill and topic, 5 together,
  test the whole query and may be lost), raises no article's score by more than 15, and
  raises the score of no article whose title does not contain \<open>w\<close>. So \<open>a\<close> keeps a score at
  least that of every article \<open>b\<close> it outranked whose title does not contain \<open>w\<close>, and of every
  article it led by 10 or more.
\<close>

theorem search_extend_query:
  assumes "w \<noteq> []" and "\<forall>c \<in> set w. \<not> is_space c"
    and "str_includes (toLowerCase (fa_title a)) w"
  shows "score_for q a + 5 \<le> score_for (q @ '' '' @ w) a
       \<and> score_for (q @ '' '' @ w) b \<le> score_for q b + 15
       \<and> (\<not> str_includes (toLowerCase (fa_title b)) w \<longrightarrow>
            score_for (q @ '' '' @ w) b \<le> score_for q b)
       \<and> (score_for q b \<le> score_for q a \<and> \<not> str_includes (toLowerCase (fa_title b)) w \<longrightarrow>
            score_for (q @ '' '' @ w) b \<le> score_for (q @ '' '' @ w) a)
       \<and> (score_for q b + 10 \<le> score_for q a \<longrightarrow>
            score_for (q @ '' '' @ w) b \<le> score_for (q @ '' '' @ w) a)"
proof -
  note a = score_extend_bounds [OF assms(1,2), of q a]
  note b = score_extend_bounds [OF assms(1,2), of q b]
  note ta = term_points_bounds(3) [OF assms(3)]
  note tb = term_points_bounds(1) [of "toLowerCase (fa_title b)" w]
  have l: "score_for q a + 5 \<le> score_for (q @ '' '' @ w) a"
    using a(1) ta by linarith
  have u: "score_for (q @ '' '' @ w) b \<le> score_for q b + 15"
    using b(2) tb by linarith
  have n: "score_for (q @ '' '' @ w) b \<le> score_for q b"
    if "\<not> str_includes (toLowerCase (fa_title b)) w"
    using b(2) term_points_bounds(4) [OF that] by linarith
  from l u n show ?thesis
    by (intro conjI impI) linarith+
qed

theorem search_extend_query_witness:
  "''basics'' \<noteq> [] \<and> list_all (\<lambda>c. \<not> is_space c) ''basics''
   \<and> str_includes (toLowerCase (fa_title learn_apex)) ''basics''
   \<and> score_for ''apex'' learn_apex = 13
   \<and> score_for ''apex'' async_await = 0
   \<and> \<not> str_includes (toLowerCase (fa_title async_await)) ''basics''
   \<and> score_for ''apex'' learn_apex + 5 \<le> score_for (''apex'' @ '' '' @ ''basics'') learn_apex
   \<and> score_for (''apex'' @ '' '' @ ''basics'') basics_of_apex \<le> score_for ''apex'' basics_of_apex + 15
   \<and> score_for (''apex'' @ '' '' @ ''basics'') async_await
        \<le> score_for (''apex'' @ '' '' @ ''basics'') learn_apex"
proof -
  have h1: "''basics'' \<noteq> []" by simp
  have h2: "\<forall>c \<in> set ''basics''. \<not> is_space c" by (simp add: is_space_def)
  have h2': "list_all (\<lambda>c. \<not> is_space c) ''basics''" by (simp add: is_space_def)
  have h3: "str_includes (toLowerCase (fa_title learn_apex)) ''basics''" by code_simp
  have e1: "score_for ''apex'' learn_apex = 13" by code_simp
  have e2: "score_for ''apex'' async_await = 0" by code_simp
  have e3: "\<not> str_includes (toLowerCase (fa_title async_await)) ''basics''" by code_simp
  from search_extend_query [OF h1 h2 h3, of "''apex''" basics_of_apex]
  have c1: "score_for ''apex'' learn_apex + 5 \<le> score_for (''apex'' @ '' '' @ ''basics'') learn_apex"
    and c2: "score_for (''apex'' @ '' '' @ ''basics'') basics_of_apex \<le> score_for ''apex'' basics_of_apex + 15"
    by blast+
  from search_extend_query [OF h1 h2 h3, of "''apex''" async_await] e1 e2 e3
  have c3: "score_for (''apex'' @ '' '' @ ''basics'') async_await
              \<le> score_for (''apex'' @ '' '' @ ''basics'') learn_apex"
    by simp
  from h1 h2' h3 e1 e2 e3 c1 c2 c3 show ?thesis by blast
qed

section \<open>Table of contents (scripts/toc.js)\<close>

text \<open>
  The rendered article is the list of its elements in document order; of an element the
  table of contents reads the tag name, the id and the text, and it writes the id.
\<close>

record dom_element =
  tagName :: string
  elem_id :: string
  textContent :: string

record toc_heading =
  element :: dom_element
  heading_id :: string
  level :: nat

record toc_link =
  className :: string
  href :: string
  link_text :: string

text \<open>
  What the container of the table of contents shows: nothing, the "No headings found"
  placeholder of \<open>renderEmpty\<close>, or the list of links.
\<close>

datatype toc_view = Cleared | EmptyState | TocList "toc_link list"

text \<open>\<open>scrollTimeout\<close> is kept as whether an animation frame has been requested.\<close>

record toc_state =
  toc_container :: toc_view
  headings :: "toc_heading list"
  links :: "toc_link list"
  activeIndex :: int
  scrollTimeout :: bool

text \<open>\<open>s.replace(/P+/g, r)\<close> for a class \<open>P\<close> of characters: every maximal run becomes \<open>r\<close>.\<close>

function replace_runs :: "(char \<Rightarrow> bool) \<Rightarrow> char \<Rightarrow> string \<Rightarrow> string" where
  "replace_runs P r [] = []"
| "replace_runs P r (x # xs) =
     (if P x then r # replace_runs P r (dropWhile P xs) else x # replace_runs P r xs)"
  by pat_completeness auto
termination
  by (relation "measure (\<lambda>(P, r, s). length s)") (auto simp: less_Suc_eq_le length_dropWhile_le)

text \<open>The class \<open>\w\<close>, and a number in decimal as a template literal prints it.\<close>

definition is_word_char :: "char \<Rightarrow> bool" where
  "is_word_char c =
     (c \<in> set ''abcdefghijklmnopqrstuvwxyzABCDEFGHIJKLMNOPQRSTUVWXYZ0123456789_'')"

fun string_of_nat :: "nat \<Rightarrow> string" where
  "string_of_nat n =
     (if n < 10 then [''0123456789'' ! n]
      else string_of_nat (n div 10) @ [''0123456789'' ! (n mod 10)])"

definition generateId :: "string \<Rightarrow> nat \<Rightarrow> string" where
  "generateId txt index =
     (let slug = trim (replace_runs (\<lambda>c. c = CHR ''-'') CHR ''-''
                   (replace_runs is_space CHR ''-''
                     (filter (\<lambda>c. is_word_char c \<or> is_space c \<or> c = CHR ''-'')
                       (toLowerCase txt))))
      in if slug \<noteq> [] then slug else ''heading-'' @ string_of_nat index)"

text \<open>\<open>querySelectorAll('h1, h2, h3, h4')\<close>, and \<open>parseInt(heading.tagName.charAt(1))\<close> on its results.\<close>

definition is_heading :: "dom_element \<Rightarrow> bool" where
  "is_heading e = (tagName e \<in> set [''H1'', ''H2'', ''H3'', ''H4''])"

definition querySelectorAll :: "dom_element list \<Rightarrow> dom_element list" where
  "querySelectorAll doc = filter is_heading doc"

definition level_of :: "dom_element \<Rightarrow> nat" where
  "level_of e =
     (if tagName e = ''H1'' then 1 else if tagName e = ''H2'' then 2
      else if tagName e = ''H3'' then 3 else if tagName e = ''H4'' then 4 else 0)"

text \<open>
  The id of the heading with the given index among the headings:
  \<open>heading.id || this.generateId(heading.textContent, index)\<close>; and the document after
  \<open>generate\<close> has given every heading without an id this id.
\<close>

definition id_for :: "dom_element \<Rightarrow> nat \<Rightarrow> string" where
  "id_for e index = (if elem_id e \<noteq> [] then elem_id e else generateId (textContent e) index)"

fun with_ids :: "nat \<Rightarrow> dom_element list \<Rightarrow> dom_element list" where
  "with_ids index [] = []"
| "with_ids index (e # es) =
     (if is_heading e then e\<lparr>elem_id := id_for e index\<rparr> # with_ids (Suc index) es
      else e # with_ids index es)"

definition heading_of :: "dom_element \<Rightarrow> toc_heading" where
  "heading_of e = \<lparr> element = e, heading_id = elem_id e, level = level_of e \<rparr>"

definition link_of :: "dom_element \<Rightarrow> toc_link" where
  "link_of e =
     \<lparr> className = ''toc-link toc-h'' @ string_of_nat (level_of e),
       href = ''#'' @ elem_id e,
       link_text = textContent e \<rparr>"

definition renderEmpty :: "toc_state \<Rightarrow> toc_state" where
  "renderEmpty t = t\<lparr>toc_container := EmptyState\<rparr>"

text \<open>\<open>handleScroll\<close>: with headings present it requests an animation frame for the scroll spy.\<close>

definition handleScroll :: "toc_state \<Rightarrow> toc_state" where
  "handleScroll t = (if headings t = [] then t else t\<lparr>scrollTimeout := True\<rparr>)"

text \<open>
  \<open>generate(contentElement)\<close>: the new state of the table of contents, and the content
  element with the ids it has been given (\<^term>\<open>None\<close> is the call with \<open>null\<close>).
\<close>

definition generate :: "toc_state \<Rightarrow> dom_element list option \<Rightarrow> toc_state \<times> dom_element list option" where
  "generate t contentElement =
     (let t0 = t\<lparr>toc_container := Cleared, headings := [], links := [], activeIndex := - 1\<rparr> in
      case contentElement of
        None \<Rightarrow> (renderEmpty t0, None)
      | Some doc \<Rightarrow>
          if querySelectorAll doc = [] then (renderEmpty t0, Some doc)
          else
            (let doc' = with_ids 0 doc;
                 hs = querySelectorAll doc';
                 t1 = t0\<lparr>headings := map heading_of hs, links := map link_of hs\<rparr>;
                 t2 = t1\<lparr>toc_container := TocList (links t1)\<rparr>
             in (handleScroll t2, Some doc')))"

text \<open>\<open>clear()\<close>.\<close>

definition clear :: "toc_state \<Rightarrow> toc_state" where
  "clear t = t\<lparr>toc_container := Cleared, headings := [], links := [], activeIndex := - 1\<rparr>"

text \<open>The headings of levels 1 to 4 in the content passed to \<open>generate\<close>.\<close>

definition headings_in :: "dom_element list option \<Rightarrow> dom_element list" where
  "headings_in c = (case c of None \<Rightarrow> [] | Some doc \<Rightarrow> querySelectorAll doc)"

definition toc_init :: toc_state where
  "toc_init =
     \<lparr> toc_container = Cleared, headings = [], links = [], activeIndex = - 1, scrollTimeout = False \<rparr>"


section \<open>Table of contents: proofs\<close>

lemma is_heading_elem_id [simp]: "is_heading (e\<lparr>elem_id := i\<rparr>) = is_heading e"
  by (simp add: is_heading_def)

lemma level_of_elem_id [simp]: "level_of (e\<lparr>elem_id := i\<rparr>) = level_of e"
  by (simp add: level_of_def)

lemma headings_with_ids_text:
  "map textContent (querySelectorAll (with_ids n doc)) = map textContent (querySelectorAll doc)"
  by (induction doc arbitrary: n) (simp_all add: querySelectorAll_def)

lemma headings_with_ids_Nil:
  "querySelectorAll (with_ids n doc) = [] \<longleftrightarrow> querySelectorAll doc = []"
  using headings_with_ids_text [of n doc] by (metis map_is_Nil_conv)

text \<open>The state after \<open>generate\<close>, field by field.\<close>

definition new_headings :: "dom_element list option \<Rightarrow> dom_element list" where
  "new_headings c = (case c of None \<Rightarrow> [] | Some doc \<Rightarrow> querySelectorAll (with_ids 0 doc))"

lemma generate_state:
  "fst (generate t c) =
     \<lparr> toc_container = (if new_headings c = [] then EmptyState else TocList (map link_of (new_headings c))),
       headings = map heading_of (new_headings c),
       links = map link_of (new_headings c),
       activeIndex = - 1,
       scrollTimeout = (if new_headings c = [] then scrollTimeout t else True) \<rparr>"
proof (cases c)
  case None
  then show ?thesis
    by (simp add: generate_def renderEmpty_def new_headings_def)
next
  case (Some doc)
  show ?thesis
  proof (cases "querySelectorAll doc = []")
    case True
    then have "new_headings c = []"
      by (simp add: new_headings_def Some headings_with_ids_Nil)
    with True Some show ?thesis
      by (simp add: generate_def renderEmpty_def)
  next
    case False
    then have "new_headings c \<noteq> []"
      by (simp add: new_headings_def Some headings_with_ids_Nil)
    with False Some show ?thesis
      by (simp add: generate_def Let_def handleScroll_def new_headings_def)
  qed
qed

lemma new_headings_text: "map textContent (new_headings c) = map textContent (headings_in c)"
  by (cases c) (simp_all add: new_headings_def headings_in_def headings_with_ids_text)

lemma new_headings_Nil: "headings_in c = [] \<Longrightarrow> new_headings c = []"
  using new_headings_text [of c] by simp

text \<open>
  C9. Whatever state the table of contents is in, \<open>generate\<close> leaves a heading list, a link
  list and a container that depend on the new content only, and the active index -1; the
  headings and links are those of the level 1 to 4 headings of the new content, in document
  order; and when the new content has no such heading (or is \<open>null\<close>) the container shows the
  empty state and both lists are empty.
\<close>

theorem generate_discards_prior_state:
  "headings (fst (generate t c)) = headings (fst (generate t' c))
 \<and> links (fst (generate t c)) = links (fst (generate t' c))
 \<and> toc_container (fst (generate t c)) = toc_container (fst (generate t' c))
 \<and> activeIndex (fst (generate t c)) = - 1
 \<and> map (\<lambda>h. textContent (element h)) (headings (fst (generate t c))) = map textContent (headings_in c)
 \<and> map link_text (links (fst (generate t c))) = map textContent (headings_in c)
 \<and> (headings_in c = [] \<longrightarrow>
       toc_container (fst (generate t c)) = EmptyState
     \<and> headings (fst (generate t c)) = []
     \<and> links (fst (generate t c)) = [])"
proof -
  have h: "map (\<lambda>h. textContent (element h)) (map heading_of (new_headings c))
             = map textContent (new_headings c)"
    by (simp add: heading_of_def comp_def)
  have l: "map link_text (map link_of (new_headings c)) = map textContent (new_headings c)"
    by (simp add: link_of_def comp_def)
  show ?thesis
    unfolding generate_state [of t c] generate_state [of t' c]
    using h l new_headings_text [of c] new_headings_Nil [of c] by simp
qed

theorem generate_discards_prior_state_witness:
  "headings (fst (generate toc_init (Some [\<lparr>tagName = ''H2'', elem_id = [], textContent = ''Old''\<rparr>])))
     = [\<lparr>element = \<lparr>tagName = ''H2'', elem_id = ''old'', textContent = ''Old''\<rparr>,
         heading_id = ''old'', level = 2\<rparr>]
   \<and> headings_in (Some [\<lparr>tagName = ''P'', elem_id = [], textContent = ''text''\<rparr>]) = []
   \<and> toc_container (fst (generate
        (fst (generate toc_init (Some [\<lparr>tagName = ''H2'', elem_id = [], textContent = ''Old''\<rparr>])))
        (Some [\<lparr>tagName = ''P'', elem_id = [], textContent = ''text''\<rparr>]))) = EmptyState
   \<and> headings (fst (generate
        (fst (generate toc_init (Some [\<lparr>tagName = ''H2'', elem_id = [], textContent = ''Old''\<rparr>])))
        (Some [\<lparr>tagName = ''P'', elem_id = [], textContent = ''text''\<rparr>]))) = []
   \<and> links (fst (generate
        (fst (generate toc_init (Some [\<lparr>tagName = ''H2'', elem_id = [], textContent = ''Old''\<rparr>])))
        (Some [\<lparr>tagName = ''P'', elem_id = [], textContent = ''text''\<rparr>]))) = []"
proof -
  let ?old = "fst (generate toc_init (Some [\<lparr>tagName = ''H2'', elem_id = [], textContent = ''Old''\<rparr>]))"
  let ?c = "Some [\<lparr>tagName = ''P'', elem_id = [], textContent = ''text''\<rparr>]"
  have o: "headings ?old
             = [\<lparr>element = \<lparr>tagName = ''H2'', elem_id = ''old'', textContent = ''Old''\<rparr>,
                 heading_id = ''old'', level = 2\<rparr>]"
    by code_simp
  have e: "headings_in ?c = []"
    by (simp add: headings_in_def querySelectorAll_def is_heading_def)
  from generate_discards_prior_state [of ?old ?c] e
  have "toc_container (fst (generate ?old ?c)) = EmptyState
      \<and> headings (fst (generate ?old ?c)) = []
      \<and> links (fst (generate ?old ?c)) = []"
    by blast
  with o e show ?thesis by blast
qed

section \<open>Markdown renderer (scripts/markdown.js)\<close>

text \<open>
  \<open>parseFrontmatter\<close> matches \<open>/^---\n([\s\S]*?)\n---\n([\s\S]*)$/\<close>: the document starts
  with \<open>---\n\<close>, the first group ends at the first \<open>\n---\n\<close> after that (the group is lazy),
  and the second group is all the rest. \<open>split_at_first pat s\<close> is the text before and after
  the first occurrence of \<open>pat\<close> in \<open>s\<close>.
\<close>

fun split_at_first :: "string \<Rightarrow> string \<Rightarrow> (string \<times> string) option" where
  "split_at_first pat [] = (if pat = [] then Some ([], []) else None)"
| "split_at_first pat (x # xs) =
     (if prefix pat (x # xs) then Some ([], drop (length pat) (x # xs))
      else (case split_at_first pat xs of
              None \<Rightarrow> None
            | Some (front, rest) \<Rightarrow> Some (x # front, rest)))"

definition frontmatter_match :: "string \<Rightarrow> (string \<times> string) option" where
  "frontmatter_match markdown =
     (if prefix (''---'' @ [CHR 0x0A]) markdown
      then split_at_first ([CHR 0x0A] @ ''---'' @ [CHR 0x0A]) (drop 4 markdown)
      else None)"

text \<open>
  One round of the loop over the lines of the block. \<open>meta\<close> is a plain object: an
  assignment to the key \<open>__proto__\<close> reaches the accessor of \<open>Object.prototype\<close>, which
  ignores a string, and adds no property.
\<close>

definition parse_line :: "(string \<rightharpoonup> string) \<Rightarrow> string \<Rightarrow> (string \<rightharpoonup> string)" where
  "parse_line meta ln =
     (let front = takeWhile (\<lambda>c. c \<noteq> CHR '':'') ln in
      if CHR '':'' \<in> set ln \<and> front \<noteq> [] then
        (let key = trim front;
             v = trim (drop (length front + 1) ln)
         in if key = ''__proto__'' then meta else meta(key \<mapsto> v))
      else meta)"

record frontmatter =
  meta :: "string \<rightharpoonup> string"
  content :: string

definition parseFrontmatter :: "string \<Rightarrow> frontmatter" where
  "parseFrontmatter markdown =
     (case frontmatter_match markdown of
        None \<Rightarrow> \<lparr> meta = Map.empty, content = markdown \<rparr>
      | Some (block, rest) \<Rightarrow>
          \<lparr> meta = fold (\<lambda>ln m. parse_line m ln) (split_char (CHR 0x0A) block) Map.empty,
            content = rest \<rparr>)"

text \<open>
  The quote stripping of the build script's \<open>extractTitle\<close>, which reads the same block:
  \<open>.replace(/^["']|["']$/g, '')\<close> takes one quote character off each end.
\<close>

definition is_quote :: "char \<Rightarrow> bool" where
  "is_quote c = (c = CHR 0x22 \<or> c = CHR 0x27)"

definition strip_quotes :: "string \<Rightarrow> string" where
  "strip_quotes s =
     (let s1 = (case s of [] \<Rightarrow> [] | c # cs \<Rightarrow> if is_quote c then cs else s)
      in if s1 \<noteq> [] \<and> is_quote (last s1) then butlast s1 else s1)"

text \<open>
  What the renderer's container shows. An article is shown with its date, when the front
  matter has one, and with the elements the converter made of the markdown text.
\<close>

datatype view = Empty | Loading | Welcome | ErrorPlaceholder | Article "string option" "dom_element list"

record renderer =
  container :: view
  currentPath :: "string option"

text \<open>
  The application: the router's current route, the navigation component (its state is not
  looked into), the renderer and the table of contents, which \<open>App.init\<close> makes the renderer's
  \<open>onRender\<close> callback.
\<close>

record 'nav app =
  currentRoute :: "route option"
  navigation :: 'nav
  markdown :: renderer
  toc :: toc_state

datatype js_error = NetworkFailure | FailedToLoad nat | BodyFailure | ConverterFailure

text \<open>
  \<open>render(content, meta)\<close>. The conversion to sanitized HTML (marked, DOMPurify) is the
  parameter \<open>convert\<close>; \<^term>\<open>None\<close> is an exception thrown by it.
\<close>

definition render ::
  "(string \<Rightarrow> dom_element list option) \<Rightarrow> 'nav app \<Rightarrow> string \<Rightarrow> (string \<rightharpoonup> string) \<Rightarrow> js_error + 'nav app" where
  "render convert s cont mt =
     (case convert cont of
        None \<Rightarrow> Inl ConverterFailure
      | Some doc \<Rightarrow>
          (let date = (case mt ''date'' of None \<Rightarrow> None | Some d \<Rightarrow> if d \<noteq> [] then Some d else None);
               (t', doc') = generate (toc s) (Some doc)
           in Inr (s\<lparr>markdown := (markdown s)\<lparr>container := Article date (case doc' of None \<Rightarrow> doc | Some d \<Rightarrow> d)\<rparr>,
                    toc := t'\<rparr>)))"

definition renderWelcome :: "'nav app \<Rightarrow> 'nav app" where
  "renderWelcome s =
     s\<lparr>markdown := (markdown s)\<lparr>container := Welcome\<rparr>, toc := fst (generate (toc s) None)\<rparr>"

definition renderLoading :: "'nav app \<Rightarrow> 'nav app" where
  "renderLoading s = s\<lparr>markdown := (markdown s)\<lparr>container := Loading\<rparr>\<rparr>"

definition renderError :: "'nav app \<Rightarrow> 'nav app" where
  "renderError s =
     s\<lparr>markdown := (markdown s)\<lparr>container := ErrorPlaceholder\<rparr>, toc := fst (generate (toc s) None)\<rparr>"

text \<open>
  How a fetch ends: it is rejected (network failure), or it gives a response with its \<open>ok\<close>
  flag, its status and its body text (\<^term>\<open>None\<close> when reading the body fails).
\<close>

datatype fetch_outcome = Rejected | Response bool nat "string option"

text \<open>
  \<open>load(path)\<close> is an async function. \<open>load_begin\<close> is what it does before it waits for the
  fetch; \<open>load_try\<close> is the rest of the \<open>try\<close> block, run when the fetch has settled, with
  \<^term>\<open>Inl\<close> for a thrown exception; \<open>load_settle\<close> adds the \<open>catch\<close> block. \<^term>\<open>Inl\<close> from
  \<open>load_settle\<close> would be the rejection of the promise \<open>load\<close> returned.
\<close>

definition load_begin :: "'nav app \<Rightarrow> string option \<Rightarrow> 'nav app" where
  "load_begin s p =
     (if \<not> truthy p then renderWelcome s
      else renderLoading (s\<lparr>markdown := (markdown s)\<lparr>currentPath := p\<rparr>\<rparr>))"

definition load_try ::
  "(string \<Rightarrow> dom_element list option) \<Rightarrow> 'nav app \<Rightarrow> fetch_outcome \<Rightarrow> js_error + 'nav app" where
  "load_try convert s outcome =
     (case outcome of
        Rejected \<Rightarrow> Inl NetworkFailure
      | Response ok status body \<Rightarrow>
          if \<not> ok then Inl (FailedToLoad status)
          else (case body of
                  None \<Rightarrow> Inl BodyFailure
                | Some markdown_text \<Rightarrow>
                    (let fm = parseFrontmatter markdown_text
                     in render convert s (content fm) (meta fm))))"

definition load_settle ::
  "(string \<Rightarrow> dom_element list option) \<Rightarrow> 'nav app \<Rightarrow> fetch_outcome \<Rightarrow> js_error + 'nav app" where
  "load_settle convert s outcome =
     (case load_try convert s outcome of
        Inl e \<Rightarrow> Inr (renderError s)
      | Inr s' \<Rightarrow> Inr s')"

text \<open>A whole \<open>load(path)\<close> with nothing else happening while the fetch is pending.\<close>

definition load ::
  "(string \<Rightarrow> dom_element list option) \<Rightarrow> 'nav app \<Rightarrow> string option \<Rightarrow> fetch_outcome \<Rightarrow> js_error + 'nav app" where
  "load convert s p outcome =
     (if \<not> truthy p then Inr (load_begin s p)
      else load_settle convert (load_begin s p) outcome)"

text \<open>
  Overlapping loads: the events are the calls of \<open>load\<close> and the settling of the fetches, in
  the order in which the single thread runs them. \<open>Settle p outcome\<close> resumes the load of \<open>p\<close>.
\<close>

datatype load_event = Begin "string option" | Settle string fetch_outcome

fun run ::
  "(string \<Rightarrow> dom_element list option) \<Rightarrow> load_event list \<Rightarrow> 'nav app \<Rightarrow> js_error + 'nav app" where
  "run convert [] s = Inr s"
| "run convert (Begin p # evs) s = run convert evs (load_begin s p)"
| "run convert (Settle p outcome # evs) s =
     (case load_settle convert s outcome of
        Inl e \<Rightarrow> Inl e
      | Inr s' \<Rightarrow> run convert evs s')"

text \<open>What a settled fetch makes the container show.\<close>

definition shown :: "(string \<Rightarrow> dom_element list option) \<Rightarrow> fetch_outcome \<Rightarrow> view" where
  "shown convert outcome =
     (case outcome of
        Response True status (Some markdown_text) \<Rightarrow>
          (case convert (content (parseFrontmatter markdown_text)) of
             None \<Rightarrow> ErrorPlaceholder
           | Some doc \<Rightarrow>
               Article (case meta (parseFrontmatter markdown_text) ''date'' of
                          None \<Rightarrow> None
                        | Some d \<Rightarrow> if d \<noteq> [] then Some d else None)
                       (if querySelectorAll doc = [] then doc else with_ids 0 doc))
      | _ \<Rightarrow> ErrorPlaceholder)"

text \<open>Examples: a converter that makes one paragraph of the text, and an application state.\<close>

definition as_paragraph :: "string \<Rightarrow> dom_element list option" where
  "as_paragraph md = Some [\<lparr> tagName = ''P'', elem_id = [], textContent = md \<rparr>]"

definition app_init :: "unit app" where
  "app_init =
     \<lparr> currentRoute = Some (parseHash ''#/sf/admin/user-management''), navigation = (),
       markdown = \<lparr> container = Empty, currentPath = None \<rparr>, toc = toc_init \<rparr>"

text \<open>A failed fetch: rejected, or answered with a status that is not a success.\<close>

fun fetch_failed :: "fetch_outcome \<Rightarrow> bool" where
  "fetch_failed Rejected = True"
| "fetch_failed (Response ok status body) = (\<not> ok)"

fun is_settle :: "load_event \<Rightarrow> bool" where
  "is_settle (Settle p outcome) = True"
| "is_settle (Begin p) = False"

text \<open>What the container shows and which path is current at the end of a run, if it ends.\<close>

definition outcome_of :: "js_error + 'nav app \<Rightarrow> (view \<times> string option) option" where
  "outcome_of r = (case r of Inl e \<Rightarrow> None | Inr s \<Rightarrow> Some (container (markdown s), currentPath (markdown s)))"

text \<open>A document whose front matter quotes the title.\<close>

definition quoted_doc :: string where
  "quoted_doc =
     ''---'' @ [CHR 0x0A] @
     ''title: '' @ [CHR 0x22] @ ''Hello'' @ [CHR 0x22] @ [CHR 0x0A] @
     ''date: 2024-12-28'' @ [CHR 0x0A] @
     ''---'' @ [CHR 0x0A] @
     ''body''"


section \<open>Markdown renderer: front matter\<close>

lemma split_at_first_parts:
  "split_at_first pat s = Some (front, rest) \<Longrightarrow> s = front @ pat @ rest"
proof (induction s arbitrary: front)
  case Nil
  then show ?case by (simp split: if_splits)
next
  case (Cons x xs)
  show ?case
  proof (cases "prefix pat (x # xs)")
    case True
    with Cons.prems have "front = []" "rest = drop (length pat) (x # xs)"
      by simp_all
    with True show ?thesis
      by (metis append_Nil append_eq_conv_conj prefixE)
  next
    case False
    with Cons.prems obtain f where "split_at_first pat xs = Some (f, rest)" "front = x # f"
      by (auto split: option.splits)
    with Cons.IH show ?thesis by simp
  qed
qed

lemma parseFrontmatter_no_block:
  "frontmatter_match md = None \<Longrightarrow>
     content (parseFrontmatter md) = md \<and> meta (parseFrontmatter md) = Map.empty"
  by (simp add: parseFrontmatter_def)

lemma parseFrontmatter_content:
  assumes "frontmatter_match md = Some (block, rest)"
  shows "md = ''---'' @ [CHR 0x0A] @ block @ [CHR 0x0A] @ ''---'' @ [CHR 0x0A] @ rest
       \<and> content (parseFrontmatter md) = rest"
proof -
  from assms have p: "prefix (''---'' @ [CHR 0x0A]) md"
    and s: "split_at_first ([CHR 0x0A] @ ''---'' @ [CHR 0x0A]) (drop 4 md) = Some (block, rest)"
    by (simp_all add: frontmatter_match_def split: if_splits)
  from p obtain r where r: "md = (''---'' @ [CHR 0x0A]) @ r"
    by (auto elim: prefixE)
  then have "drop 4 md = r"
    by simp
  with r have "md = (''---'' @ [CHR 0x0A]) @ drop 4 md"
    by simp
  with split_at_first_parts [OF s] have "md = (''---'' @ [CHR 0x0A]) @ block @ ([CHR 0x0A] @ ''---'' @ [CHR 0x0A]) @ rest"
    by simp
  with assms show ?thesis
    by (simp add: parseFrontmatter_def)
qed

text \<open>
  C8 at a quoted value: \<open>parseFrontmatter\<close> trims the value and keeps its quotes, where the
  build script's \<open>extractTitle\<close> takes them off the same line.
\<close>

theorem parseFrontmatter_keeps_quotes:
  "meta (parseFrontmatter quoted_doc) ''title'' = Some ([CHR 0x22] @ ''Hello'' @ [CHR 0x22])
   \<and> strip_quotes ([CHR 0x22] @ ''Hello'' @ [CHR 0x22]) = ''Hello''
   \<and> meta (parseFrontmatter quoted_doc) ''date'' = Some ''2024-12-28''
   \<and> content (parseFrontmatter quoted_doc) = ''body''"
  by code_simp


section \<open>Markdown renderer: loading\<close>

lemma generate_doc:
  "snd (generate t (Some doc)) = Some (if querySelectorAll doc = [] then doc else with_ids 0 doc)"
  by (simp add: generate_def Let_def)

lemma render_result:
  "render convert s cont mt =
     (case convert cont of
        None \<Rightarrow> Inl ConverterFailure
      | Some doc \<Rightarrow>
          Inr (s\<lparr>markdown := (markdown s)\<lparr>container :=
                    Article (case mt ''date'' of None \<Rightarrow> None | Some d \<Rightarrow> if d \<noteq> [] then Some d else None)
                            (if querySelectorAll doc = [] then doc else with_ids 0 doc)\<rparr>,
                 toc := fst (generate (toc s) (Some doc))\<rparr>))"
proof (cases "convert cont")
  case None
  then show ?thesis by (simp add: render_def)
next
  case (Some doc)
  obtain t' d' where g: "generate (toc s) (Some doc) = (t', d')"
    by (cases "generate (toc s) (Some doc)")
  with generate_doc [of "toc s" doc]
  have "d' = Some (if querySelectorAll doc = [] then doc else with_ids 0 doc)" by simp
  with Some g show ?thesis
    by (simp add: render_def Let_def)
qed

lemma load_settle_result:
  "load_settle convert s outcome =
     Inr (s\<lparr>markdown := (markdown s)\<lparr>container := shown convert outcome\<rparr>,
            toc := (case load_try convert s outcome of Inl e \<Rightarrow> fst (generate (toc s) None) | Inr s' \<Rightarrow> toc s')\<rparr>)"
proof (cases outcome)
  case Rejected
  then show ?thesis
    by (simp add: load_settle_def load_try_def renderError_def shown_def)
next
  case (Response ok status body)
  show ?thesis
  proof (cases "ok \<and> body \<noteq> None")
    case False
    with Response show ?thesis
      by (cases body; cases ok) (simp_all add: load_settle_def load_try_def renderError_def shown_def)
  next
    case True
    then obtain md where b: "body = Some md" and ok: ok by auto
    show ?thesis
    proof (cases "convert (content (parseFrontmatter md))")
      case None
      with Response b ok show ?thesis
        by (simp add: load_settle_def load_try_def renderError_def shown_def render_result Let_def)
    next
      case (Some doc)
      with Response b ok show ?thesis
        by (simp add: load_settle_def load_try_def shown_def render_result Let_def)
    qed
  qed
qed

lemma shown_failed: "fetch_failed outcome \<Longrightarrow> shown convert outcome = ErrorPlaceholder"
  by (cases outcome) (simp_all add: shown_def)

lemma load_begin_frame:
  "currentRoute (load_begin s p) = currentRoute s \<and> navigation (load_begin s p) = navigation s"
  by (simp add: load_begin_def renderWelcome_def renderLoading_def)

lemma load_begin_currentPath: "truthy p \<Longrightarrow> currentPath (markdown (load_begin s p)) = p"
  by (simp add: load_begin_def renderLoading_def)

text \<open>
  C7. \<open>load(path)\<close> never ends in an exception: for every path and every way the fetch can
  end it returns a state. When the fetch fails (network failure, or a status that is not a
  success) the renderer's container shows the error placeholder; and whatever happens, the
  router's current route and the navigation state are as they were. The same holds for a
  load that is resumed after other events (\<open>load_settle\<close>).
\<close>

theorem load_contains_failure:
  "(\<exists>s'. load convert s p outcome = Inr s'
         \<and> currentRoute s' = currentRoute s \<and> navigation s' = navigation s
         \<and> (truthy p \<and> fetch_failed outcome \<longrightarrow> container (markdown s') = ErrorPlaceholder))
 \<and> (\<exists>s'. load_settle convert s outcome = Inr s'
         \<and> currentRoute s' = currentRoute s \<and> navigation s' = navigation s
         \<and> (fetch_failed outcome \<longrightarrow> container (markdown s') = ErrorPlaceholder))"
proof (intro conjI)
  show "\<exists>s'. load_settle convert s outcome = Inr s'
         \<and> currentRoute s' = currentRoute s \<and> navigation s' = navigation s
         \<and> (fetch_failed outcome \<longrightarrow> container (markdown s') = ErrorPlaceholder)"
    unfolding load_settle_result by (simp add: shown_failed)
next
  show "\<exists>s'. load convert s p outcome = Inr s'
         \<and> currentRoute s' = currentRoute s \<and> navigation s' = navigation s
         \<and> (truthy p \<and> fetch_failed outcome \<longrightarrow> container (markdown s') = ErrorPlaceholder)"
  proof (cases "truthy p")
    case False
    then show ?thesis
      by (simp add: load_def load_begin_frame)
  next
    case True
    then show ?thesis
      unfolding load_def load_settle_result by (simp add: shown_failed load_begin_frame)
  qed
qed

theorem load_contains_failure_witness:
  "truthy (Some ''content/Salesforce/Admin/missing.md'')
   \<and> fetch_failed (Response False 404 None)
   \<and> fetch_failed Rejected
   \<and> outcome_of (load as_paragraph app_init (Some ''content/Salesforce/Admin/missing.md'') (Response False 404 None))
       = Some (ErrorPlaceholder, Some ''content/Salesforce/Admin/missing.md'')
   \<and> (\<exists>s'. load as_paragraph app_init (Some ''content/Salesforce/Admin/missing.md'') Rejected = Inr s'
          \<and> currentRoute s' = currentRoute app_init \<and> navigation s' = navigation app_init
          \<and> container (markdown s') = ErrorPlaceholder)"
proof -
  have t: "truthy (Some ''content/Salesforce/Admin/missing.md'')"
    by (simp add: truthy_def)
  have f: "fetch_failed (Response False 404 None)" "fetch_failed Rejected"
    by simp_all
  have o: "outcome_of (load as_paragraph app_init (Some ''content/Salesforce/Admin/missing.md'') (Response False 404 None))
             = Some (ErrorPlaceholder, Some ''content/Salesforce/Admin/missing.md'')"
    by (simp add: outcome_of_def load_def load_settle_result shown_def load_begin_def renderLoading_def
        truthy_def)
  from load_contains_failure [of as_paragraph app_init "Some ''content/Salesforce/Admin/missing.md''" Rejected] t f(2)
  have "\<exists>s'. load as_paragraph app_init (Some ''content/Salesforce/Admin/missing.md'') Rejected = Inr s'
          \<and> currentRoute s' = currentRoute app_init \<and> navigation s' = navigation app_init
          \<and> container (markdown s') = ErrorPlaceholder"
    by blast
  with t f o show ?thesis by blast
qed

section \<open>Markdown renderer: overlapping loads\<close>

lemma load_settle_shows:
  assumes "load_settle convert s outcome = Inr s'"
  shows "container (markdown s') = shown convert outcome"
    and "currentPath (markdown s') = currentPath (markdown s)"
  using assms unfolding load_settle_result by auto

lemma load_settle_total: "\<exists>s'. load_settle convert s outcome = Inr s'"
  unfolding load_settle_result by simp

lemma run_append:
  "run convert (xs @ ys) s =
     (case run convert xs s of Inl e \<Rightarrow> Inl e | Inr s' \<Rightarrow> run convert ys s')"
proof (induction xs arbitrary: s)
  case Nil
  then show ?case by simp
next
  case (Cons ev xs)
  then show ?case
    by (cases ev) (simp_all split: sum.splits)
qed

lemma run_total: "\<exists>s'. run convert evs s = Inr s'"
proof (induction evs arbitrary: s)
  case Nil
  then show ?case by simp
next
  case (Cons ev evs)
  show ?case
  proof (cases ev)
    case (Begin p)
    with Cons show ?thesis by simp
  next
    case (Settle p outcome)
    obtain s1 where "load_settle convert s outcome = Inr s1"
      using load_settle_total by blast
    with Settle Cons show ?thesis by simp
  qed
qed

lemma run_settles_currentPath:
  "list_all is_settle evs \<Longrightarrow> run convert evs s = Inr s' \<Longrightarrow>
     currentPath (markdown s') = currentPath (markdown s)"
proof (induction evs arbitrary: s)
  case Nil
  then show ?case by simp
next
  case (Cons ev evs)
  from Cons.prems(1) obtain p outcome where ev: "ev = Settle p outcome"
    by (cases ev) simp_all
  obtain s1 where s1: "load_settle convert s outcome = Inr s1"
    using load_settle_total by blast
  with Cons.prems(2) ev have "run convert evs s1 = Inr s'" by simp
  with Cons.IH Cons.prems(1) have "currentPath (markdown s') = currentPath (markdown s1)"
    by simp
  with load_settle_shows(2) [OF s1] show ?case by simp
qed

text \<open>
  C6 as stated fails. Two loads overlap, \<open>a.md\<close> first and \<open>b.md\<close> second, and the fetch of
  \<open>b.md\<close> completes first. When the stale fetch of \<open>a.md\<close> completes after it, its content
  replaces that of \<open>b.md\<close>, the load started last, which is still the current path.
\<close>

theorem stale_load_overwrites_counterexample:
  "outcome_of (run as_paragraph
      [Begin (Some ''a.md''), Begin (Some ''b.md''),
       Settle ''b.md'' (Response True 200 (Some ''B'')),
       Settle ''a.md'' (Response True 200 (Some ''A''))] app_init)
     = Some (Article None [\<lparr>tagName = ''P'', elem_id = [], textContent = ''A''\<rparr>], Some ''b.md'')"
  by code_simp

text \<open>
  C6, amended. Each fetch that settles is applied when it settles, whatever was started in
  between: after any events, the container shows what the fetch settled last gives (its
  article, or the error placeholder), so with completions in the order of the calls it is the
  content of the load started last, and with a stale completion arriving last it is the stale
  content. The current path is that of the load started last. No run ends in an exception.
\<close>

theorem last_settled_load_is_shown:
  "(\<exists>s'. run convert (evs @ [Settle p outcome]) s = Inr s'
          \<and> container (markdown s') = shown convert outcome)
 \<and> (truthy b \<and> list_all is_settle later \<longrightarrow>
       (\<exists>s'. run convert (evs @ Begin b # later) s = Inr s' \<and> currentPath (markdown s') = b))"
proof (intro conjI impI)
  obtain s1 where s1: "run convert evs s = Inr s1"
    using run_total by blast
  obtain s2 where s2: "load_settle convert s1 outcome = Inr s2"
    using load_settle_total by blast
  from s1 s2 have "run convert (evs @ [Settle p outcome]) s = Inr s2"
    by (simp add: run_append)
  with load_settle_shows(1) [OF s2]
  show "\<exists>s'. run convert (evs @ [Settle p outcome]) s = Inr s'
          \<and> container (markdown s') = shown convert outcome"
    by blast
next
  assume a: "truthy b \<and> list_all is_settle later"
  obtain s1 where s1: "run convert evs s = Inr s1"
    using run_total by blast
  obtain s2 where s2: "run convert later (load_begin s1 b) = Inr s2"
    using run_total by blast
  from s1 s2 have r: "run convert (evs @ Begin b # later) s = Inr s2"
    by (simp add: run_append)
  from a have tb: "truthy b" and ls: "list_all is_settle later"
    by simp_all
  have "currentPath (markdown s2) = currentPath (markdown (load_begin s1 b))"
    using ls s2 by (rule run_settles_currentPath)
  with tb have "currentPath (markdown s2) = b"
    by (simp add: load_begin_currentPath)
  with r show "\<exists>s'. run convert (evs @ Begin b # later) s = Inr s' \<and> currentPath (markdown s') = b"
    by blast
qed

theorem last_settled_load_is_shown_witness:
  "truthy (Some ''b.md'')
   \<and> list_all is_settle [Settle ''a.md'' (Response True 200 (Some ''A'')),
                          Settle ''b.md'' (Response True 200 (Some ''B''))]
   \<and> shown as_paragraph (Response True 200 (Some ''B''))
       = Article None [\<lparr>tagName = ''P'', elem_id = [], textContent = ''B''\<rparr>]
   \<and> (\<exists>s'. run as_paragraph
               ([Begin (Some ''a.md''), Begin (Some ''b.md''),
                 Settle ''a.md'' (Response True 200 (Some ''A''))] @
                [Settle ''b.md'' (Response True 200 (Some ''B''))]) app_init = Inr s'
          \<and> container (markdown s') = Article None [\<lparr>tagName = ''P'', elem_id = [], textContent = ''B''\<rparr>])
   \<and> (\<exists>s'. run as_paragraph
               ([Begin (Some ''a.md'')] @ Begin (Some ''b.md'') #
                [Settle ''a.md'' (Response True 200 (Some ''A'')),
                 Settle ''b.md'' (Response True 200 (Some ''B''))]) app_init = Inr s'
          \<and> currentPath (markdown s') = Some ''b.md'')"
proof -
  have t: "truthy (Some ''b.md'')"
    by (simp add: truthy_def)
  have l: "list_all is_settle [Settle ''a.md'' (Response True 200 (Some ''A'')),
                               Settle ''b.md'' (Response True 200 (Some ''B''))]"
    by simp
  have v: "shown as_paragraph (Response True 200 (Some ''B''))
             = Article None [\<lparr>tagName = ''P'', elem_id = [], textContent = ''B''\<rparr>]"
    by code_simp
  from last_settled_load_is_shown
    [of as_paragraph "[Begin (Some ''a.md''), Begin (Some ''b.md''),
                       Settle ''a.md'' (Response True 200 (Some ''A''))]"
        "''b.md''" "Response True 200 (Some ''B'')" app_init]
  have c: "\<exists>s'. run as_paragraph
               ([Begin (Some ''a.md''), Begin (Some ''b.md''),
                 Settle ''a.md'' (Response True 200 (Some ''A''))] @
                [Settle ''b.md'' (Response True 200 (Some ''B''))]) app_init = Inr s'
          \<and> container (markdown s') = Article None [\<lparr>tagName = ''P'', elem_id = [], textContent = ''B''\<rparr>]"
    unfolding v by blast
  from last_settled_load_is_shown
    [of as_paragraph "[Begin (Some ''a.md'')]" "''x''" Rejected app_init "Some ''b.md''"
        "[Settle ''a.md'' (Response True 200 (Some ''A'')),
          Settle ''b.md'' (Response True 200 (Some ''B''))]"] t l
  have p: "\<exists>s'. run as_paragraph
               ([Begin (Some ''a.md'')] @ Begin (Some ''b.md'') #
                [Settle ''a.md'' (Response True 200 (Some ''A'')),
                 Settle ''b.md'' (Response True 200 (Some ''B''))]) app_init = Inr s'
          \<and> currentPath (markdown s') = Some ''b.md''"
    by blast
  from t l v c p show ?thesis by blast
qed

end
